theory Spec2Isabelle
  imports Main "HOL-Library.Sublist"
begin

section \<open>LiteNotes: the note store, the trash lifecycle and the small parsers\<close>

text \<open>
  The repository holds three generations of the application in one source file: the
  first React version (\<^verbatim>\<open>NotesView\<close>, lines 133--275, with \<^verbatim>\<open>Backlinks\<close> and
  \<^verbatim>\<open>renderWikiLinks\<close>), a stub, and the "pro" version (\<^verbatim>\<open>App\<close>, lines 598--820)
  that adds the trash and the markdown preview. The store operations below are those of
  the pro version unless a name ends in \<open>_v1\<close>.

  Conventions of the embedding.
  \<^item> A JavaScript string is a list of UTF-16 code units; the model uses \<^typ>\<open>string\<close>
    and reads a \<^typ>\<open>char\<close> as a code unit below 256.
  \<^item> A plain JavaScript object is the list of its own enumerable string-keyed
    properties in enumeration order (array indices ascending, then the other keys in
    creation order), which is what \<^verbatim>\<open>Object.keys\<close> and \<^verbatim>\<open>Object.entries\<close> return.
  \<^item> \<^verbatim>\<open>Date.now()\<close>, \<^verbatim>\<open>confirm(...)\<close> and \<^verbatim>\<open>prompt(...)\<close> are inputs of the
    operation; \<^verbatim>\<open>alert(...)\<close> is part of its result.
  \<^item> Each handler runs on the state it was rendered with, so the \<^verbatim>\<open>data\<close> of the
    closure and the \<^verbatim>\<open>d\<close> of the \<^verbatim>\<open>setData\<close> updater are the same value.
\<close>

subsection \<open>Plain objects\<close>

type_synonym 'v js_object = "(string \<times> 'v) list"

definition keys :: "'v js_object \<Rightarrow> string list" where
  "keys obj = map fst obj"

text \<open>
  The property names every plain object inherits from \<^verbatim>\<open>Object.prototype\<close>. Reading
  one of them from an object that has no own property of that name yields a function (or,
  for \<^verbatim>\<open>__proto__\<close>, the prototype object): a truthy value.
\<close>

definition object_prototype_names :: "string list" where
  "object_prototype_names =
     [''constructor'', ''hasOwnProperty'', ''isPrototypeOf'', ''propertyIsEnumerable'',
      ''toLocaleString'', ''toString'', ''valueOf'', ''__proto__'',
      ''__defineGetter__'', ''__defineSetter__'', ''__lookupGetter__'', ''__lookupSetter__'']"

text \<open>\<^verbatim>\<open>!!obj[k]\<close> for an object whose own values are objects.\<close>

definition truthy_at :: "'v js_object \<Rightarrow> string \<Rightarrow> bool" where
  "truthy_at obj k = (map_of obj k \<noteq> None \<or> k \<in> set object_prototype_names)"

text \<open>\<^verbatim>\<open>delete obj[k]\<close>.\<close>

definition obj_delete :: "string \<Rightarrow> 'v js_object \<Rightarrow> 'v js_object" where
  "obj_delete k obj = filter (\<lambda>p. fst p \<noteq> k) obj"

text \<open>
  Array indices: the canonical decimal numerals of the integers from 0 to
  \<open>2^32 - 2\<close>. They are enumerated first, in ascending numeric order.
\<close>

definition is_digit :: "char \<Rightarrow> bool" where
  "is_digit c = (48 \<le> (of_char c :: nat) \<and> (of_char c :: nat) \<le> 57)"

definition decimal :: "string \<Rightarrow> nat" where
  "decimal s = foldl (\<lambda>n c. 10 * n + ((of_char c :: nat) - 48)) 0 s"

definition is_array_index :: "string \<Rightarrow> bool" where
  "is_array_index s =
     (s \<noteq> [] \<and> list_all is_digit s \<and> (s = ''0'' \<or> hd s \<noteq> CHR ''0'')
      \<and> decimal s < 4294967295)"

fun insert_index :: "string \<Rightarrow> 'v \<Rightarrow> 'v js_object \<Rightarrow> 'v js_object" where
  "insert_index k v [] = [(k, v)]"
| "insert_index k v (p # ps) =
     (if is_array_index (fst p) \<and> decimal (fst p) < decimal k
      then p # insert_index k v ps
      else (k, v) # p # ps)"

fun replace_value :: "string \<Rightarrow> 'v \<Rightarrow> 'v js_object \<Rightarrow> 'v js_object" where
  "replace_value k v [] = []"
| "replace_value k v (p # ps) =
     (if fst p = k then (k, v) # ps else p # replace_value k v ps)"

text \<open>
  Defining the own property \<open>k\<close>, as the computed key of an object literal
  \<^verbatim>\<open>{...obj, [k]: v}\<close> does: an existing key keeps its place, a new one is enumerated
  among the array indices or after every other key.
\<close>

definition obj_put :: "string \<Rightarrow> 'v \<Rightarrow> 'v js_object \<Rightarrow> 'v js_object" where
  "obj_put k v obj =
     (if map_of obj k \<noteq> None then replace_value k v obj
      else if is_array_index k then insert_index k v obj
      else obj @ [(k, v)])"

subsection \<open>The store\<close>

record note_record =
  content :: string
  updated :: nat

record trash_entry =
  title :: string
  tcontent :: string
  deletedAt :: nat

record app =
  d_notes :: "note_record js_object"
  d_trash :: "trash_entry list"
  current :: string

datatype js_error =
  TypeError
  \<comment> \<open>reading a property of \<^verbatim>\<open>undefined\<close>\<close>
| UndefinedRecord
  \<comment> \<open>the operation stored a value that is no note record (outside the data model)\<close>

text \<open>\<^verbatim>\<open>arr.filter((_, i) => i !== idx)\<close>.\<close>

definition filter_index :: "nat \<Rightarrow> 'a list \<Rightarrow> 'a list" where
  "filter_index idx xs = map snd (filter (\<lambda>p. fst p \<noteq> idx) (enumerate 0 xs))"

text \<open>
  \<^verbatim>\<open>
  function softDeleteNote(title){
    if(!confirm(`Move "${title}" to Trash?`)) return;
    setData(d=>{
      const copy = {...d.notes};
      const entry = {title, content: copy[title]?.content||"", deletedAt: Date.now()};
      delete copy[title];
      return {...d, notes:copy, trash:[entry, ...d.trash]};
    });
    if(title===current){
      const next = Object.keys(data.notes).filter(t=>t!==title)[0] || "Home";
      setCurrent(next);
    }
  }
  \<close>
  An inherited \<^verbatim>\<open>copy[title]\<close> has no \<^verbatim>\<open>content\<close>, so only an own record contributes
  a snapshot. The first remaining key is used unless it is the empty string, which is falsy.
\<close>

definition softDeleteNote :: "bool \<Rightarrow> nat \<Rightarrow> string \<Rightarrow> app \<Rightarrow> app" where
  "softDeleteNote confirmed now ttl st =
     (if \<not> confirmed then st
      else
        let entry = \<lparr>title = ttl,
                     tcontent = (case map_of (d_notes st) ttl of
                                   Some n \<Rightarrow> content n | None \<Rightarrow> ''''),
                     deletedAt = now\<rparr>;
            st' = st\<lparr>d_notes := obj_delete ttl (d_notes st), d_trash := entry # d_trash st\<rparr>
        in if ttl = current st
           then st'\<lparr>current :=
                  (case filter (\<lambda>t. t \<noteq> ttl) (keys (d_notes st)) of
                     [] \<Rightarrow> ''Home''
                   | t # _ \<Rightarrow> if t = '''' then ''Home'' else t)\<rparr>
           else st')"

text \<open>
  \<^verbatim>\<open>
  function restoreTrash(idx){
    const item = data.trash[idx];
    const t = (data.notes[item.title] ? item.title+" (restored)" : item.title);
    setData(d=>{
      const notes = {...d.notes, [t]: {content:item.content,updated:Date.now()}};
      const trash = d.trash.filter((_,i)=>i!==idx);
      return {...d, notes, trash};
    });
    setCurrent(t);
  }
  \<close>
\<close>

definition restoreTrash :: "nat \<Rightarrow> nat \<Rightarrow> app \<Rightarrow> js_error + app" where
  "restoreTrash now idx st =
     (if idx < length (d_trash st) then
        let item = d_trash st ! idx;
            t = (if truthy_at (d_notes st) (title item)
                 then title item @ '' (restored)'' else title item)
        in Inr (st\<lparr>d_notes := obj_put t \<lparr>content = tcontent item, updated = now\<rparr> (d_notes st),
                    d_trash := filter_index idx (d_trash st),
                    current := t\<rparr>)
      else Inl TypeError)"

text \<open>
  \<^verbatim>\<open>
  function deleteForever(idx){
    if(!confirm("Delete permanently? This cannot be undone.")) return;
    setData(d=>({...d, trash: d.trash.filter((_,i)=>i!==idx)}));
  }
  function emptyTrash(){
    if(!confirm("Empty trash permanently?")) return;
    setData(d=>({...d, trash:[]}));
  }
  \<close>
\<close>

definition deleteForever :: "bool \<Rightarrow> nat \<Rightarrow> app \<Rightarrow> app" where
  "deleteForever confirmed idx st =
     (if \<not> confirmed then st else st\<lparr>d_trash := filter_index idx (d_trash st)\<rparr>)"

definition emptyTrash :: "bool \<Rightarrow> app \<Rightarrow> app" where
  "emptyTrash confirmed st = (if \<not> confirmed then st else st\<lparr>d_trash := []\<rparr>)"

text \<open>
  \<^verbatim>\<open>
  function renameNote(){
    const nt = prompt("Rename note:", current);
    if(!nt || nt===current) return;
    if(data.notes[nt]){ alert("Title exists."); return; }
    setData(d=>{
      const copy = {...d.notes};
      copy[nt] = copy[current];
      delete copy[current];
      return {...d, notes:copy};
    });
    setCurrent(nt);
  }
  \<close>
  The answer of \<^verbatim>\<open>prompt\<close> is \<open>None\<close> when the dialog is cancelled. The result pairs
  the text of the alert, if one is shown, with the next state. When \<^verbatim>\<open>current\<close> is not
  an own key, \<^verbatim>\<open>copy[current]\<close> is not a note record.
\<close>

definition renameNote :: "string option \<Rightarrow> app \<Rightarrow> js_error + (string option \<times> app)" where
  "renameNote answer st =
     (case answer of
        None \<Rightarrow> Inr (None, st)
      | Some nt \<Rightarrow>
          if nt = '''' \<or> nt = current st then Inr (None, st)
          else if truthy_at (d_notes st) nt then Inr (Some ''Title exists.'', st)
          else (case map_of (d_notes st) (current st) of
                  None \<Rightarrow> Inl UndefinedRecord
                | Some n \<Rightarrow>
                    Inr (None, st\<lparr>d_notes := obj_delete (current st) (obj_put nt n (d_notes st)),
                                   current := nt\<rparr>)))"

text \<open>
  The first version keeps the notes and the selection only (no trash), and takes both
  titles as arguments; when \<^verbatim>\<open>oldTitle\<close> is not an own key it stores a record without
  content:
  \<^verbatim>\<open>
  function renameNote(oldTitle, newTitle) {
    if (!newTitle || oldTitle === newTitle) return;
    if (notes[newTitle]) { alert("A note with this title already exists."); return; }
    setNotes((prev) => {
      const copy = { ...prev };
      copy[newTitle] = { ...copy[oldTitle], updated: Date.now() };
      delete copy[oldTitle];
      return copy;
    });
    setCurrent(newTitle);
  }
  \<close>
\<close>

record notes_view =
  notes_v1 :: "note_record js_object"
  current_v1 :: string

definition renameNote_v1 ::
  "nat \<Rightarrow> string \<Rightarrow> string \<Rightarrow> notes_view \<Rightarrow> js_error + (string option \<times> notes_view)" where
  "renameNote_v1 now oldTitle newTitle st =
     (if newTitle = '''' \<or> oldTitle = newTitle then Inr (None, st)
      else if truthy_at (notes_v1 st) newTitle
      then Inr (Some ''A note with this title already exists.'', st)
      else (case map_of (notes_v1 st) oldTitle of
              None \<Rightarrow> Inl UndefinedRecord
            | Some n \<Rightarrow>
                Inr (None, st\<lparr>notes_v1 := obj_delete oldTitle
                                              (obj_put newTitle (n\<lparr>updated := now\<rparr>) (notes_v1 st)),
                               current_v1 := newTitle\<rparr>)))"

subsection \<open>Strings and the small regular expressions\<close>

text \<open>
  White space as \<^verbatim>\<open>\s\<close> and \<^verbatim>\<open>String.prototype.trim\<close> see it, among the code units
  below 256: tab, line feed, vertical tab, form feed, carriage return, space and the
  no-break space. The dot of a regular expression matches everything but a line terminator.
\<close>

definition is_space :: "char \<Rightarrow> bool" where
  "is_space c = ((of_char c :: nat) \<in> set [9, 10, 11, 12, 13, 32, 160])"

definition is_line_terminator :: "char \<Rightarrow> bool" where
  "is_line_terminator c = ((of_char c :: nat) \<in> set [10, 13])"

definition trim :: "string \<Rightarrow> string" where
  "trim s = rev (dropWhile is_space (rev (dropWhile is_space s)))"

definition startsWith :: "string \<Rightarrow> string \<Rightarrow> bool" where
  "startsWith s p = prefix p s"

text \<open>
  \<^verbatim>\<open>s.indexOf(pat, from)\<close>: the least index at or after \<open>from\<close> where \<open>pat\<close> occurs;
  \<open>None\<close> stands for the result -1.
\<close>

fun find_from :: "string \<Rightarrow> string \<Rightarrow> nat \<Rightarrow> nat option" where
  "find_from pat [] i = (if pat = [] then Some i else None)"
| "find_from pat (c # cs) i =
     (if startsWith (c # cs) pat then Some i else find_from pat cs (Suc i))"

definition indexOf :: "string \<Rightarrow> string \<Rightarrow> nat \<Rightarrow> nat option" where
  "indexOf s pat from = find_from pat (drop from s) (min from (length s))"

text \<open>\<^verbatim>\<open>s.slice(a, b)\<close> for non-negative \<open>a\<close> and \<open>b\<close>.\<close>

definition slice :: "string \<Rightarrow> nat \<Rightarrow> nat \<Rightarrow> string" where
  "slice s a b = drop a (take b s)"

text \<open>
  \<^verbatim>\<open>s.split(/\n+/)\<close>: the pieces between maximal runs of line feeds; a run at either
  end leaves an empty piece there, and the empty string gives one empty piece.
\<close>

fun split_newlines :: "string \<Rightarrow> string list" where
  "split_newlines [] = [[]]"
| "split_newlines (c # cs) =
     (if c = CHR ''\<newline>'' then
        (if cs \<noteq> [] \<and> hd cs = CHR ''\<newline>'' then split_newlines cs
         else [] # split_newlines cs)
      else (case split_newlines cs of
              [] \<Rightarrow> [[c]]
            | l # ls \<Rightarrow> (c # l) # ls))"

text \<open>\<^verbatim>\<open>s.split(/\r?\n/)\<close>: every line feed, with a carriage return right before it, separates.\<close>

fun split_lines :: "string \<Rightarrow> string list" where
  "split_lines [] = [[]]"
| "split_lines [c] = (if c = CHR ''\<newline>'' then [[], []] else [[c]])"
| "split_lines (c # d # cs) =
     (if c = CHR ''\<newline>'' then [] # split_lines (d # cs)
      else if c = CHR 0x0D \<and> d = CHR ''\<newline>'' then [] # split_lines cs
      else (case split_lines (d # cs) of
              [] \<Rightarrow> [[c]]
            | l # ls \<Rightarrow> (c # l) # ls))"

text \<open>\<^verbatim>\<open>pieces.join(sep)\<close>.\<close>

fun join :: "string \<Rightarrow> string list \<Rightarrow> string" where
  "join sep [] = []"
| "join sep [x] = x"
| "join sep (x # y # ys) = x @ sep @ join sep (y # ys)"

text \<open>
  The four span patterns \<^verbatim>\<open>\*\*([^*]+)\*\*\<close>, \<^verbatim>\<open>\*([^*]+)\*\<close>, \<^verbatim>\<open>__([^_]+)__\<close> and
  \<^verbatim>\<open>\[\[([^\]]+)\]\]\<close> have one shape: an opening literal, a non-empty group free of
  one character, and a closing literal that begins with that character. Since the
  character after the group must be the excluded one, the group is the whole run up to its
  first occurrence and backtracking finds nothing else. \<open>match_span\<close> is the match
  anchored at the start of \<open>s\<close>: the group and the text after the match.
\<close>

definition match_span :: "string \<Rightarrow> char \<Rightarrow> string \<Rightarrow> string \<Rightarrow> (string \<times> string) option" where
  "match_span opn stop cls s =
     (if prefix opn s then
        (let r = drop (length opn) s;
             g = takeWhile (\<lambda>c. c \<noteq> stop) r;
             rest = dropWhile (\<lambda>c. c \<noteq> stop) r
         in if g \<noteq> [] \<and> prefix cls rest then Some (g, drop (length cls) rest) else None)
      else None)"

text \<open>\<^verbatim>\<open>re.test(s)\<close> for a span pattern: is there a match at some position.\<close>

fun test_span :: "string \<Rightarrow> char \<Rightarrow> string \<Rightarrow> string \<Rightarrow> bool" where
  "test_span opn stop cls [] = False"
| "test_span opn stop cls (c # cs) =
     (match_span opn stop cls (c # cs) \<noteq> None \<or> test_span opn stop cls cs)"

text \<open>
  \<^verbatim>\<open>s.replace(re, f)\<close> for a global span pattern: matches are taken from left to right,
  each search resuming after the previous match; \<open>skip\<close> counts the characters of the
  current match still to pass.
\<close>

fun replace_spans ::
  "string \<Rightarrow> char \<Rightarrow> string \<Rightarrow> (string \<Rightarrow> string) \<Rightarrow> nat \<Rightarrow> string \<Rightarrow> string" where
  "replace_spans opn stop cls f skip [] = []"
| "replace_spans opn stop cls f skip (c # cs) =
     (if 0 < skip then replace_spans opn stop cls f (skip - 1) cs
      else (case match_span opn stop cls (c # cs) of
              None \<Rightarrow> c # replace_spans opn stop cls f 0 cs
            | Some (g, rest) \<Rightarrow>
                f g @ replace_spans opn stop cls f (length opn + length g + length cls - 1) cs))"

subsection \<open>Front matter\<close>

text \<open>
  \<^verbatim>\<open>line.match(/^([^:]+):\s*(.*)$/)\<close>: the first group is the non-empty text before the
  first colon; after the colon all white space is passed, and what follows must reach the
  end of the line without a line terminator. The result is the two groups.
\<close>

definition match_property_line :: "string \<Rightarrow> (string \<times> string) option" where
  "match_property_line line =
     (let k = takeWhile (\<lambda>c. c \<noteq> CHR '':'') line;
          r = dropWhile (\<lambda>c. c \<noteq> CHR '':'') line
      in if k = [] \<or> r = [] then None
         else let v = dropWhile is_space (tl r)
              in if list_ex is_line_terminator v then None else Some (k, v))"

text \<open>
  \<^verbatim>\<open>props[k] = v\<close> on an object created by \<^verbatim>\<open>{}\<close>: an own property is defined, except
  for the key \<^verbatim>\<open>__proto__\<close>, whose inherited setter ignores a string.
\<close>

definition assign_property :: "string \<Rightarrow> string \<Rightarrow> string js_object \<Rightarrow> string js_object" where
  "assign_property k v obj = (if k = ''__proto__'' then obj else obj_put k v obj)"

text \<open>
  \<^verbatim>\<open>
  header.split(/\n+/).forEach(line=>{
    const m = line.match(/^([^:]+):\s*(.*)$/);
    if(m) props[m[1].trim()] = m[2].trim();
  });
  \<close>
\<close>

definition header_props :: "string \<Rightarrow> string js_object" where
  "header_props header =
     foldl (\<lambda>props line.
              case match_property_line line of
                None \<Rightarrow> props
              | Some (k, v) \<Rightarrow> assign_property (trim k) (trim v) props)
       [] (split_newlines header)"

text \<open>
  The assignments that loop makes, in order: for each line of the header that matches,
  the trimmed first group and the trimmed second group.
\<close>

definition property_lines :: "string \<Rightarrow> (string \<times> string) list" where
  "property_lines header =
     List.map_filter
       (\<lambda>line. map_option (\<lambda>(k, v). (trim k, trim v)) (match_property_line line))
       (split_newlines header)"

record front_matter =
  props :: "string js_object"
  body :: string

text \<open>\<^verbatim>\<open>s.replace(/^\n/, "")\<close>.\<close>

definition strip_newline :: "string \<Rightarrow> string" where
  "strip_newline s = (case s of [] \<Rightarrow> [] | c # cs \<Rightarrow> if c = CHR ''\<newline>'' then cs else s)"

text \<open>
  \<^verbatim>\<open>
  function parseFrontMatter(text){
    const fm = {props:{}, body:text||""};
    if(text && text.startsWith("---\n")){
      const end = text.indexOf("\n---",4);
      if(end!==-1){
        const header = text.slice(4,end).trim();
        const body = text.slice(end+4).replace(/^\n/,"");
        const props = {};
        header.split(/\n+/).forEach(...);
        return {props, body};
      }
    }
    return fm;
  }
  \<close>
  The argument is \<open>None\<close> when the content is absent (\<^verbatim>\<open>undefined\<close>).
\<close>

definition parseFrontMatter :: "string option \<Rightarrow> front_matter" where
  "parseFrontMatter text =
     (case text of
        None \<Rightarrow> \<lparr>props = [], body = ''''\<rparr>
      | Some t \<Rightarrow>
          if t \<noteq> '''' \<and> startsWith t ''---\<newline>'' then
            (case indexOf t ''\<newline>---'' 4 of
               None \<Rightarrow> \<lparr>props = [], body = t\<rparr>
             | Some e \<Rightarrow>
                 \<lparr>props = header_props (trim (slice t 4 e)),
                  body = strip_newline (drop (e + 4) t)\<rparr>)
          else \<lparr>props = [], body = t\<rparr>)"

text \<open>
  Modelled from the spec: the repository has no serializer for front matter; the spec
  names one only in its round-trip property and describes the block as "delimited by
  \<^verbatim>\<open>---\<close> lines encoding key:value properties". This is that block: the opening line,
  one \<^verbatim>\<open>key: value\<close> line per property in order, the closing line.
\<close>

definition serialize :: "(string \<times> string) list \<Rightarrow> string" where
  "serialize ps =
     ''---\<newline>'' @ concat (map (\<lambda>(k, v). k @ '': '' @ v @ ''\<newline>'') ps) @ ''---\<newline>''"

text \<open>
  The properties that survive the round trip: a key is non-empty, has no colon and no line
  feed, neither starts nor ends with white space and is not \<^verbatim>\<open>__proto__\<close>; a value has
  no line terminator and neither starts nor ends with white space. \<open>header_text\<close> is the
  serialized block between its delimiters, and \<open>rtrim\<close> the right half of \<open>trim\<close>.
\<close>

definition plain_key :: "string \<Rightarrow> bool" where
  "plain_key k = (k \<noteq> [] \<and> CHR '':'' \<notin> set k \<and> CHR ''\<newline>'' \<notin> set k
                  \<and> \<not> is_space (hd k) \<and> \<not> is_space (last k) \<and> k \<noteq> ''__proto__'')"

definition plain_value :: "string \<Rightarrow> bool" where
  "plain_value v = (\<not> list_ex is_line_terminator v
                    \<and> (v = [] \<or> (\<not> is_space (hd v) \<and> \<not> is_space (last v))))"

fun header_text :: "(string \<times> string) list \<Rightarrow> string" where
  "header_text [] = []"
| "header_text [p] = fst p @ '': '' @ snd p"
| "header_text (p # q # ps) = fst p @ '': '' @ snd p @ ''\<newline>'' @ header_text (q # ps)"

definition rtrim :: "string \<Rightarrow> string" where
  "rtrim s = rev (dropWhile is_space (rev s))"

subsection \<open>The markdown preview\<close>

text \<open>\<^verbatim>\<open>s.replace(/[&<>]/g, c=>({ "&":"&amp;","<":"&lt;",">":"&gt;" }[c]))\<close>.\<close>

definition esc :: "string \<Rightarrow> string" where
  "esc s = concat (map (\<lambda>c. if c = CHR ''&'' then ''&amp;''
                             else if c = CHR ''<'' then ''&lt;''
                             else if c = CHR ''>'' then ''&gt;'' else [c]) s)"

text \<open>
  \<^verbatim>\<open>/^###\s+/.test(line)\<close> and \<^verbatim>\<open>line.replace(/^###\s+/, "")\<close> in one, for the
  marker \<^verbatim>\<open>###\<close>, \<^verbatim>\<open>##\<close> or \<^verbatim>\<open>#\<close>: the text of the heading, if the line is one.
\<close>

definition heading_text :: "string \<Rightarrow> string \<Rightarrow> string option" where
  "heading_text marker line =
     (let r = drop (length marker) line
      in if prefix marker line \<and> r \<noteq> [] \<and> is_space (hd r)
         then Some (dropWhile is_space r) else None)"

definition wikilink_anchor :: "string \<Rightarrow> string" where
  \<open>wikilink_anchor p1 =
     ''<a href="#" class="wikilink" data-title="'' @ p1 @ ''">[['' @ p1 @ '']]</a>''\<close>

text \<open>
  \<^verbatim>\<open>
  const html = lines.map(line=>{
    if(/^###\s+/.test(line)) return `<h3>${esc(line.replace(/^###\s+/,""))}</h3>`;
    if(/^##\s+/.test(line)) return `<h2>${esc(line.replace(/^##\s+/,""))}</h2>`;
    if(/^#\s+/.test(line)) return `<h1>${esc(line.replace(/^#\s+/,""))}</h1>`;
    let t = esc(line);
    t = t.replace(/\*\*([^*]+)\*\*/g, "<strong>$1</strong>");
    t = t.replace(/\*([^*]+)\*/g, "<em>$1</em>");
    t = t.replace(/__([^_]+)__/g, "<u>$1</u>");
    t = t.replace(/\[\[([^\]]+)\]\]/g,
          (m,p1)=>`<a href="#" class="wikilink" data-title="${p1}">[[${p1}]]</a>`);
    return `<p>${t||"&nbsp;"}</p>`;
  }).join("\n");
  \<close>
  The function's second parameter, \<^verbatim>\<open>onOpen\<close>, occurs nowhere in its body: the links are
  opened by the click handler below.
\<close>

definition render_line :: "string \<Rightarrow> string" where
  "render_line line =
     (case heading_text ''###'' line of
        Some h \<Rightarrow> ''<h3>'' @ esc h @ ''</h3>''
      | None \<Rightarrow>
     (case heading_text ''##'' line of
        Some h \<Rightarrow> ''<h2>'' @ esc h @ ''</h2>''
      | None \<Rightarrow>
     (case heading_text ''#'' line of
        Some h \<Rightarrow> ''<h1>'' @ esc h @ ''</h1>''
      | None \<Rightarrow>
          (let t0 = esc line;
               t1 = replace_spans ''**'' (CHR ''*'') ''**''
                      (\<lambda>g. ''<strong>'' @ g @ ''</strong>'') 0 t0;
               t2 = replace_spans ''*'' (CHR ''*'') ''*'' (\<lambda>g. ''<em>'' @ g @ ''</em>'') 0 t1;
               t3 = replace_spans ''__'' (CHR ''_'') ''__'' (\<lambda>g. ''<u>'' @ g @ ''</u>'') 0 t2;
               t4 = replace_spans ''[['' (CHR '']'') '']]'' wikilink_anchor 0 t3
           in ''<p>'' @ (if t4 = [] then ''&nbsp;'' else t4) @ ''</p>''))))"

definition renderMarkdown :: "string \<Rightarrow> string" where
  "renderMarkdown src = join ''\<newline>'' (map render_line (split_lines src))"

text \<open>
  The click handler of the preview, for a click on an anchor whose \<^verbatim>\<open>data-title\<close>
  attribute the browser reads back as \<open>ttl\<close>:
  \<^verbatim>\<open>
  const title = a.dataset.title;
  if(!data.notes[title]){
    setData(d=>({...d, notes:{...d.notes, [title]:{content:"",updated:Date.now()}}}));
  }
  setCurrent(title);
  \<close>
\<close>

definition handler :: "nat \<Rightarrow> string \<Rightarrow> app \<Rightarrow> app" where
  "handler now ttl st =
     (if \<not> truthy_at (d_notes st) ttl
      then st\<lparr>d_notes := obj_put ttl \<lparr>content = '''', updated = now\<rparr> (d_notes st),
              current := ttl\<rparr>
      else st\<lparr>current := ttl\<rparr>)"

text \<open>
  The link scan of the first version (\<^verbatim>\<open>renderWikiLinks\<close>): the titles its buttons open,
  \<^verbatim>\<open>m[1].trim()\<close> for the successive matches of \<^verbatim>\<open>/\[\[([^\]]+)\]\]/g\<close>.
\<close>

fun wikilink_titles :: "nat \<Rightarrow> string \<Rightarrow> string list" where
  "wikilink_titles skip [] = []"
| "wikilink_titles skip (c # cs) =
     (if 0 < skip then wikilink_titles (skip - 1) cs
      else (case match_span ''[['' (CHR '']'') '']]'' (c # cs) of
              None \<Rightarrow> wikilink_titles 0 cs
            | Some (g, rest) \<Rightarrow> trim g # wikilink_titles (length g + 3) cs))"

subsection \<open>Backlinks\<close>

text \<open>
  \<^verbatim>\<open>
  const backlinks = Object.entries(data.notes)
    .filter(([t])=>t!==current)
    .filter(([,n])=>/\[\[[^\]]+\]\]/.test(n.content))
    .filter(([t,n])=> new RegExp(
        `\\[\\[${current.replace(/[.*+?^${}()|[\]\\]/g,'\\$&')}\\]\\]`).test(n.content));
  \<close>
  The first version's \<^verbatim>\<open>Backlinks\<close> component is the same chain on its \<^verbatim>\<open>notes\<close> and
  \<^verbatim>\<open>current\<close>. The pattern given to \<^verbatim>\<open>RegExp\<close> is built from escaped characters only;
  \<open>literal_of_pattern\<close> reads such a pattern back: the one string it matches, or \<open>None\<close>
  when the pattern uses a syntax character unescaped (or escapes an ordinary one).
\<close>

definition regex_specials :: string where
  "regex_specials = ''.*+?^${}()|[]'' @ [CHR 0x5C]"

definition escapeRegExp :: "string \<Rightarrow> string" where
  "escapeRegExp s = concat (map (\<lambda>c. if c \<in> set regex_specials then [CHR 0x5C, c] else [c]) s)"

fun literal_of_pattern :: "string \<Rightarrow> string option" where
  "literal_of_pattern [] = Some []"
| "literal_of_pattern [c] = (if c \<in> set regex_specials then None else Some [c])"
| "literal_of_pattern (c # d # cs) =
     (if c = CHR 0x5C then
        (if d \<in> set regex_specials then map_option ((#) d) (literal_of_pattern cs) else None)
      else if c \<in> set regex_specials then None
      else map_option ((#) c) (literal_of_pattern (d # cs)))"

definition regexp_test :: "string \<Rightarrow> string \<Rightarrow> bool option" where
  "regexp_test src s = map_option (\<lambda>lit. find_from lit s 0 \<noteq> None) (literal_of_pattern src)"

definition backlink_pattern :: "string \<Rightarrow> string" where
  "backlink_pattern cur =
     [CHR 0x5C, CHR ''['', CHR 0x5C, CHR ''['']
     @ escapeRegExp cur
     @ [CHR 0x5C, CHR '']'', CHR 0x5C, CHR '']'']"

definition backlinks :: "app \<Rightarrow> (string \<times> note_record) list" where
  "backlinks st =
     filter (\<lambda>p. regexp_test (backlink_pattern (current st)) (content (snd p)) = Some True)
       (filter (\<lambda>p. test_span ''[['' (CHR '']'') '']]'' (content (snd p)))
          (filter (\<lambda>p. fst p \<noteq> current st) (d_notes st)))"

subsection \<open>Example stores\<close>

definition example_store :: app where
  "example_store =
     \<lparr>d_notes = [(''Home'', \<lparr>content = ''hello'', updated = 1\<rparr>),
                 (''Project'', \<lparr>content = ''Hello [[Home]]'', updated = 2\<rparr>)],
      d_trash = [\<lparr>title = ''Old'', tcontent = ''x'', deletedAt = 3\<rparr>,
                 \<lparr>title = ''Older'', tcontent = ''y'', deletedAt = 2\<rparr>],
      current = ''Project''\<rparr>"

definition twice_deleted_store :: app where
  "twice_deleted_store =
     \<lparr>d_notes = [(''Project'', \<lparr>content = ''third draft'', updated = 5\<rparr>),
                 (''Project (restored)'', \<lparr>content = ''second draft'', updated = 6\<rparr>)],
      d_trash = [\<lparr>title = ''Project'', tcontent = ''first draft'', deletedAt = 2\<rparr>],
      current = ''Project''\<rparr>"

definition single_note_store :: app where
  "single_note_store =
     \<lparr>d_notes = [(''Draft'', \<lparr>content = ''text'', updated = 1\<rparr>)],
      d_trash = [],
      current = ''Draft''\<rparr>"

definition spaced_link_store :: app where
  "spaced_link_store =
     \<lparr>d_notes = [(''Home'', \<lparr>content = ''welcome'', updated = 1\<rparr>),
                 (''Project'', \<lparr>content = ''see [[ Home ]]'', updated = 2\<rparr>),
                 (''Log'', \<lparr>content = ''---\<newline>ref: [[Home]]\<newline>---\<newline>nothing'', updated = 3\<rparr>)],
      d_trash = [],
      current = ''Home''\<rparr>"

definition empty_title_store :: app where
  "empty_title_store =
     \<lparr>d_notes = [('''', \<lparr>content = ''scratch'', updated = 1\<rparr>),
                 (''Plan'', \<lparr>content = ''agenda'', updated = 2\<rparr>)],
      d_trash = [],
      current = ''Plan''\<rparr>"

section \<open>Properties of plain objects\<close>

lemma map_of_obj_delete: "map_of (obj_delete k obj) = (map_of obj)(k := None)"
  by (induction obj) (auto simp: obj_delete_def)

lemma keys_obj_delete: "keys (obj_delete k obj) = filter (\<lambda>t. t \<noteq> k) (keys obj)"
  by (induction obj) (auto simp: obj_delete_def keys_def)

lemma map_of_replace_value:
  "map_of obj k \<noteq> None \<Longrightarrow> map_of (replace_value k v obj) = (map_of obj)(k \<mapsto> v)"
  by (induction obj) auto

lemma map_of_insert_index:
  "map_of (insert_index k v obj) x = (if x = k then Some v else map_of obj x)"
  by (induction obj) auto

lemma map_of_obj_put: "map_of (obj_put k v obj) = (map_of obj)(k \<mapsto> v)"
proof
  fix x
  show "map_of (obj_put k v obj) x = ((map_of obj)(k \<mapsto> v)) x"
    unfolding obj_put_def
    by (auto simp: map_of_replace_value map_of_insert_index map_add_def split: option.splits)
qed

lemma enumerate_filter_index:
  "map snd (filter (\<lambda>p. fst p \<noteq> n + idx) (enumerate n xs)) = take idx xs @ drop (Suc idx) xs"
proof (induction xs arbitrary: n idx)
  case Nil
  then show ?case by simp
next
  case (Cons x xs)
  show ?case
  proof (cases idx)
    case 0
    have "filter (\<lambda>p. fst p \<noteq> n) (enumerate (Suc n) xs) = enumerate (Suc n) xs"
      by (rule filter_True) (auto simp: in_set_enumerate_eq)
    with 0 show ?thesis by simp
  next
    case (Suc i)
    with Cons.IH [of "Suc n" i] show ?thesis by simp
  qed
qed

lemma filter_index_take_drop: "filter_index idx xs = take idx xs @ drop (Suc idx) xs"
  using enumerate_filter_index [of 0 idx xs] by (simp add: filter_index_def)

lemma obj_delete_absent: "map_of obj k = None \<Longrightarrow> obj_delete k obj = obj"
  unfolding obj_delete_def
  by (rule filter_True) (auto simp: map_of_eq_None_iff)

lemma set_keys_obj_delete: "set (keys (obj_delete k obj)) = set (keys obj) - {k}"
  by (auto simp: keys_obj_delete)

text \<open>
  What the selection becomes when the viewed note is moved to the trash: the first
  remaining key, except that an empty first key and an empty store both give "Home".
\<close>

lemma softDelete_selection:
  "current (softDeleteNote True now (current st) st) =
     (case keys (obj_delete (current st) (d_notes st)) of
        [] \<Rightarrow> ''Home'' | t # _ \<Rightarrow> if t = '''' then ''Home'' else t)"
  by (simp add: softDeleteNote_def Let_def keys_obj_delete)

section \<open>Properties of the string functions\<close>

lemma find_from_none: "\<not> sublist pat s \<Longrightarrow> find_from pat s i = None"
proof (induction s arbitrary: i)
  case Nil
  then show ?case by auto
next
  case (Cons c cs)
  from Cons.prems have "\<not> prefix pat (c # cs)" and "\<not> sublist pat cs"
    by (simp_all add: sublist_Cons_right)
  with Cons.IH show ?case by (simp add: startsWith_def)
qed

lemma prefix_overlap:
  assumes "prefix pat (pre @ pat @ post)" and "pre \<noteq> []"
  shows "prefix pat (pre @ butlast pat)"
proof -
  have "prefix (butlast pat) (pat @ post)"
    using prefixeq_butlast [of pat] by (rule prefix_prefix)
  then have q: "prefix (pre @ butlast pat) (pre @ pat @ post)"
    by simp
  have "length pat \<le> length (pre @ butlast pat)"
    using assms(2) by (cases pre) auto
  with assms(1) q show ?thesis
    by (rule prefix_length_prefix)
qed

text \<open>The search returns the first occurrence.\<close>

lemma find_from_first:
  assumes "\<not> sublist pat (pre @ butlast pat)"
  shows "find_from pat (pre @ pat @ post) i = Some (i + length pre)"
  using assms
proof (induction pre arbitrary: i)
  case Nil
  have "prefix pat (pat @ post)" by simp
  then show ?case
    by (cases "pat @ post") (simp_all add: startsWith_def)
next
  case (Cons c p)
  have "\<not> prefix pat ((c # p) @ pat @ post)"
  proof
    assume "prefix pat ((c # p) @ pat @ post)"
    then have "prefix pat ((c # p) @ butlast pat)"
      by (rule prefix_overlap) simp
    then have "sublist pat ((c # p) @ butlast pat)"
      by (rule prefix_imp_sublist)
    with Cons.prems show False by simp
  qed
  moreover from Cons.prems have "\<not> sublist pat (p @ butlast pat)"
    by (simp add: sublist_Cons_right)
  ultimately show ?case using Cons.IH [of "Suc i"] by (simp add: startsWith_def)
qed

text \<open>A text that contains a non-empty pattern splits at its first occurrence.\<close>

lemma first_occurrence:
  assumes "sublist pat s" and "pat \<noteq> []"
  shows "\<exists>pre post. s = pre @ pat @ post \<and> \<not> sublist pat (pre @ butlast pat)"
  using assms(1)
proof (induction s)
  case Nil
  with assms(2) show ?case by simp
next
  case (Cons c cs)
  show ?case
  proof (cases "prefix pat (c # cs)")
    case True
    then obtain post where "c # cs = [] @ pat @ post"
      by (auto simp: prefix_def)
    moreover have "\<not> sublist pat ([] @ butlast pat)"
      using assms(2) sublist_length_le [of pat "butlast pat"] by (cases pat) auto
    ultimately show ?thesis by blast
  next
    case False
    with Cons.prems have "sublist pat cs"
      by (simp add: sublist_Cons_right)
    with Cons.IH obtain pre post
      where cs: "cs = pre @ pat @ post" and n: "\<not> sublist pat (pre @ butlast pat)"
      by blast
    have "\<not> prefix pat (c # pre @ butlast pat)"
    proof
      assume p: "prefix pat (c # pre @ butlast pat)"
      have "prefix (butlast pat) (pat @ post)"
        using prefixeq_butlast [of pat] by (rule prefix_prefix)
      then have "prefix (c # pre @ butlast pat) (c # cs)"
        by (simp add: cs)
      with p have "prefix pat (c # cs)"
        by (rule prefix_order.trans)
      with False show False by simp
    qed
    with n have "\<not> sublist pat ((c # pre) @ butlast pat)"
      by (simp add: sublist_Cons_right)
    moreover have "c # cs = (c # pre) @ pat @ post"
      by (simp add: cs)
    ultimately show ?thesis by blast
  qed
qed

lemma find_from_some: "sublist pat s \<Longrightarrow> find_from pat s i \<noteq> None"
proof (cases "pat = []")
  case True
  then show ?thesis by (cases s) (simp_all add: startsWith_def)
next
  case False
  assume "sublist pat s"
  with False obtain pre post
    where "s = pre @ pat @ post" and "\<not> sublist pat (pre @ butlast pat)"
    using first_occurrence by blast
  then show ?thesis by (simp add: find_from_first)
qed

lemma parse_no_front_matter:
  assumes "\<not> prefix ''---\<newline>'' t \<or> \<not> sublist ''\<newline>---'' (drop 4 t)"
  shows "parseFrontMatter (Some t) = \<lparr>props = [], body = t\<rparr>"
  using assms
  by (auto simp: parseFrontMatter_def startsWith_def indexOf_def find_from_none)

lemma parse_front_matter:
  assumes "\<not> sublist ''\<newline>---'' (hdr @ ''\<newline>--'')"
  shows "parseFrontMatter (Some (''---\<newline>'' @ hdr @ ''\<newline>---'' @ rest))
           = \<lparr>props = header_props (trim hdr), body = strip_newline rest\<rparr>"
proof -
  let ?t = "''---\<newline>'' @ hdr @ ''\<newline>---'' @ rest"
  have "find_from ''\<newline>---'' (hdr @ ''\<newline>---'' @ rest) 4 = Some (4 + length hdr)"
    using find_from_first [of "''\<newline>---''" hdr rest 4] assms by simp
  moreover have "drop 4 ?t = hdr @ ''\<newline>---'' @ rest" by simp
  moreover have "min 4 (length ?t) = 4" by simp
  ultimately have e: "indexOf ?t ''\<newline>---'' 4 = Some (4 + length hdr)"
    unfolding indexOf_def by (simp only:)
  have s: "slice ?t 4 (4 + length hdr) = hdr"
    by (simp add: slice_def eval_nat_numeral)
  have d: "drop (4 + length hdr + 4) ?t = rest"
    by (simp add: eval_nat_numeral)
  have p: "startsWith ?t ''---\<newline>''"
    by (simp add: startsWith_def)
  have ne: "?t \<noteq> ''''" by simp
  show ?thesis
    unfolding parseFrontMatter_def option.case e s d
    using p ne by (simp only: simp_thms if_True)
qed

lemma front_matter_split:
  assumes "prefix ''---\<newline>'' t" and "sublist ''\<newline>---'' (drop 4 t)"
  shows "\<exists>hdr rest. t = ''---\<newline>'' @ hdr @ ''\<newline>---'' @ rest
           \<and> \<not> sublist ''\<newline>---'' (hdr @ ''\<newline>--'')"
proof -
  from assms(2) obtain hdr rest
    where d: "drop 4 t = hdr @ ''\<newline>---'' @ rest"
      and n: "\<not> sublist ''\<newline>---'' (hdr @ butlast ''\<newline>---'')"
    using first_occurrence [of "''\<newline>---''" "drop 4 t"] by blast
  from assms(1) have "take 4 t = ''---\<newline>''"
    by (auto simp: prefix_def)
  then have "t = ''---\<newline>'' @ drop 4 t"
    by (metis append_take_drop_id)
  with d n show ?thesis by auto
qed

lemma match_property_line_iff:
  "match_property_line line = Some (k, v) \<longleftrightarrow>
     k \<noteq> [] \<and> CHR '':'' \<notin> set k
     \<and> (\<exists>w. line = k @ '':'' @ w @ v \<and> list_all is_space w)
     \<and> (v = [] \<or> \<not> is_space (hd v))
     \<and> \<not> list_ex is_line_terminator v"
proof
  assume m: "match_property_line line = Some (k, v)"
  let ?P = "\<lambda>c. c \<noteq> CHR '':''"
  from m have k: "k = takeWhile ?P line" and kne: "k \<noteq> []"
    and rne: "dropWhile ?P line \<noteq> []"
    and v: "v = dropWhile is_space (tl (dropWhile ?P line))"
    and nt: "\<not> list_ex is_line_terminator v"
    by (auto simp: match_property_line_def Let_def split: if_splits)
  from rne have "hd (dropWhile ?P line) = CHR '':''"
    using hd_dropWhile [of ?P line] by auto
  with rne have r: "dropWhile ?P line = '':'' @ tl (dropWhile ?P line)"
    by (cases "dropWhile ?P line") auto
  let ?w = "takeWhile is_space (tl (dropWhile ?P line))"
  have "line = k @ dropWhile ?P line" by (simp add: k)
  moreover have "tl (dropWhile ?P line) = ?w @ v"
    by (simp add: v)
  ultimately have "line = k @ '':'' @ ?w @ v"
    using r by simp
  moreover have "list_all is_space ?w"
    by (auto simp: list_all_iff dest: set_takeWhileD)
  moreover have "CHR '':'' \<notin> set k"
    unfolding k by (auto dest: set_takeWhileD)
  moreover have "v = [] \<or> \<not> is_space (hd v)"
    unfolding v using hd_dropWhile [of is_space] by blast
  ultimately show "k \<noteq> [] \<and> CHR '':'' \<notin> set k
     \<and> (\<exists>w. line = k @ '':'' @ w @ v \<and> list_all is_space w)
     \<and> (v = [] \<or> \<not> is_space (hd v))
     \<and> \<not> list_ex is_line_terminator v"
    using kne nt by blast
next
  assume a: "k \<noteq> [] \<and> CHR '':'' \<notin> set k
     \<and> (\<exists>w. line = k @ '':'' @ w @ v \<and> list_all is_space w)
     \<and> (v = [] \<or> \<not> is_space (hd v))
     \<and> \<not> list_ex is_line_terminator v"
  then obtain w where l: "line = k @ '':'' @ w @ v" and w: "list_all is_space w"
    by blast
  let ?P = "\<lambda>c. c \<noteq> CHR '':''"
  from a have nc: "\<forall>x\<in>set k. x \<noteq> CHR '':''" by auto
  from nc have tk: "takeWhile ?P line = k"
    unfolding l by (simp add: takeWhile_append2)
  from nc have dk: "dropWhile ?P line = '':'' @ w @ v"
    unfolding l by (simp add: dropWhile_append2)
  have dv: "dropWhile is_space (w @ v) = v"
  proof -
    from w have "dropWhile is_space (w @ v) = dropWhile is_space v"
      by (simp add: dropWhile_append2 list_all_iff)
    also from a have "\<dots> = v" by (cases v) auto
    finally show ?thesis .
  qed
  from a tk dk dv show "match_property_line line = Some (k, v)"
    by (simp add: match_property_line_def Let_def)
qed

text \<open>The span patterns, declaratively.\<close>

lemma match_span_iff:
  assumes "cls \<noteq> []" and "hd cls = stop"
  shows "match_span opn stop cls s = Some (g, rest) \<longleftrightarrow>
           s = opn @ g @ cls @ rest \<and> g \<noteq> [] \<and> stop \<notin> set g"
proof
  assume m: "match_span opn stop cls s = Some (g, rest)"
  let ?r = "drop (length opn) s"
  let ?P = "\<lambda>c. c \<noteq> stop"
  from m have p: "prefix opn s" and g: "g = takeWhile ?P ?r" and gne: "g \<noteq> []"
    and c: "prefix cls (dropWhile ?P ?r)" and r: "rest = drop (length cls) (dropWhile ?P ?r)"
    by (auto simp: match_span_def Let_def split: if_splits)
  from p have s: "s = opn @ ?r"
    by (auto simp: prefix_def)
  from c have d: "dropWhile ?P ?r = cls @ rest"
    unfolding r by (auto simp: prefix_def)
  have "?r = g @ dropWhile ?P ?r"
    unfolding g by simp
  with d have "?r = g @ cls @ rest" by simp
  with s have "s = opn @ g @ cls @ rest" by simp
  moreover have "stop \<notin> set g"
    unfolding g by (auto dest: set_takeWhileD)
  ultimately show "s = opn @ g @ cls @ rest \<and> g \<noteq> [] \<and> stop \<notin> set g"
    using gne by blast
next
  assume a: "s = opn @ g @ cls @ rest \<and> g \<noteq> [] \<and> stop \<notin> set g"
  let ?P = "\<lambda>c. c \<noteq> stop"
  from assms obtain cs where cls: "cls = stop # cs"
    by (cases cls) auto
  from a have ng: "\<forall>x\<in>set g. x \<noteq> stop" by auto
  have r: "drop (length opn) s = g @ cls @ rest"
    using a by simp
  from ng have t: "takeWhile ?P (g @ cls @ rest) = g"
    by (simp add: takeWhile_append2 cls)
  from ng have d: "dropWhile ?P (g @ cls @ rest) = cls @ rest"
    by (simp add: dropWhile_append2 cls)
  have p: "prefix opn s" using a by simp
  show "match_span opn stop cls s = Some (g, rest)"
    unfolding match_span_def Let_def r t d using p a by simp
qed

lemma test_span_iff:
  assumes "cls \<noteq> []" and "hd cls = stop"
  shows "test_span opn stop cls s \<longleftrightarrow>
           (\<exists>pre g post. s = pre @ opn @ g @ cls @ post \<and> g \<noteq> [] \<and> stop \<notin> set g)"
proof
  assume "test_span opn stop cls s"
  then show "\<exists>pre g post. s = pre @ opn @ g @ cls @ post \<and> g \<noteq> [] \<and> stop \<notin> set g"
  proof (induction s)
    case Nil
    then show ?case by simp
  next
    case (Cons c cs)
    show ?case
    proof (cases "match_span opn stop cls (c # cs)")
      case (Some gr)
      obtain g rest where "gr = (g, rest)" by (cases gr)
      with Some match_span_iff [OF assms, of opn "c # cs" g rest]
      have "c # cs = [] @ opn @ g @ cls @ rest \<and> g \<noteq> [] \<and> stop \<notin> set g"
        by simp
      then show ?thesis by blast
    next
      case None
      with Cons.prems have "test_span opn stop cls cs" by simp
      with Cons.IH obtain pre g post
        where "cs = pre @ opn @ g @ cls @ post \<and> g \<noteq> [] \<and> stop \<notin> set g"
        by blast
      then have "c # cs = (c # pre) @ opn @ g @ cls @ post \<and> g \<noteq> [] \<and> stop \<notin> set g"
        by simp
      then show ?thesis by blast
    qed
  qed
next
  assume "\<exists>pre g post. s = pre @ opn @ g @ cls @ post \<and> g \<noteq> [] \<and> stop \<notin> set g"
  then obtain pre g post
    where s: "s = pre @ opn @ g @ cls @ post" and g: "g \<noteq> []" "stop \<notin> set g"
    by blast
  show "test_span opn stop cls s"
    unfolding s
  proof (induction pre)
    case Nil
    from g have m: "match_span opn stop cls (opn @ g @ cls @ post) = Some (g, post)"
      using match_span_iff [OF assms, of opn "opn @ g @ cls @ post" g post] by simp
    from g(1) obtain c cs where "opn @ g @ cls @ post = c # cs"
      by (cases "opn @ g @ cls @ post") auto
    with m show ?case by simp
  next
    case (Cons c p)
    then show ?case by simp
  qed
qed

text \<open>Escaping makes the pattern a literal: the expression matches the bracketed title and nothing else.\<close>

lemma escapeRegExp_Cons:
  "escapeRegExp (c # s) = (if c \<in> set regex_specials then [CHR 0x5C, c] else [c]) @ escapeRegExp s"
  by (simp add: escapeRegExp_def)

lemma escapeRegExp_Nil [simp]: "escapeRegExp [] = []"
  by (simp add: escapeRegExp_def)

lemma escapeRegExp_eq_Nil: "escapeRegExp a = [] \<longleftrightarrow> a = []"
  by (cases a) (simp_all add: escapeRegExp_Cons)

lemma backslash_special: "CHR 0x5C \<in> set regex_specials"
  by (simp add: regex_specials_def)

lemma literal_of_escaped:
  "literal_of_pattern (escapeRegExp a @ rest) = map_option ((@) a) (literal_of_pattern rest)"
proof (induction a)
  case Nil
  show ?case by (simp add: option.map_ident)
next
  case (Cons c a)
  show ?case
  proof (cases "c \<in> set regex_specials")
    case True
    with Cons.IH show ?thesis
      by (simp add: escapeRegExp_Cons option.map_comp comp_def)
  next
    case False
    with backslash_special have nb: "c \<noteq> CHR 0x5C" by auto
    show ?thesis
    proof (cases "escapeRegExp a @ rest")
      case Nil
      then have "escapeRegExp a = []" and r: "rest = []"
        by simp_all
      then have "a = []"
        by (simp add: escapeRegExp_eq_Nil)
      with False r show ?thesis by (simp add: escapeRegExp_Cons)
    next
      case (Cons d cs)
      with False nb Cons.IH show ?thesis
        by (simp add: escapeRegExp_Cons option.map_comp comp_def)
    qed
  qed
qed

lemma literal_of_backlink_pattern:
  "literal_of_pattern (backlink_pattern cur) = Some (''[['' @ cur @ '']]'')"
proof -
  have "literal_of_pattern [CHR 0x5C, CHR '']'', CHR 0x5C, CHR '']''] = Some '']]''"
    by (simp add: regex_specials_def)
  then have "literal_of_pattern (escapeRegExp cur @ [CHR 0x5C, CHR '']'', CHR 0x5C, CHR '']''])
               = Some (cur @ '']]'')"
    by (simp add: literal_of_escaped)
  then show ?thesis
    by (simp add: backlink_pattern_def regex_specials_def)
qed

lemma regexp_test_backlink:
  "regexp_test (backlink_pattern cur) s = Some (sublist (''[['' @ cur @ '']]'') s)"
proof (cases "sublist (''[['' @ cur @ '']]'') s")
  case True
  then have "find_from (''[['' @ cur @ '']]'') s 0 \<noteq> None"
    by (rule find_from_some)
  with True show ?thesis
    by (simp add: regexp_test_def literal_of_backlink_pattern)
next
  case False
  then have "find_from (''[['' @ cur @ '']]'') s 0 = None"
    by (rule find_from_none)
  with False show ?thesis
    by (simp add: regexp_test_def literal_of_backlink_pattern)
qed

lemma backlinks_member:
  "p \<in> set (backlinks st) \<longleftrightarrow>
     p \<in> set (d_notes st) \<and> fst p \<noteq> current st
     \<and> (\<exists>pre g post. content (snd p) = pre @ ''[['' @ g @ '']]'' @ post
            \<and> g \<noteq> [] \<and> CHR '']'' \<notin> set g)
     \<and> sublist (''[['' @ current st @ '']]'') (content (snd p))"
proof -
  have t: "test_span ''[['' (CHR '']'') '']]'' (content (snd p)) \<longleftrightarrow>
           (\<exists>pre g post. content (snd p) = pre @ ''[['' @ g @ '']]'' @ post
              \<and> g \<noteq> [] \<and> CHR '']'' \<notin> set g)"
    by (rule test_span_iff) simp_all
  have "p \<in> set (backlinks st) \<longleftrightarrow>
          p \<in> set (d_notes st) \<and> fst p \<noteq> current st
          \<and> test_span ''[['' (CHR '']'') '']]'' (content (snd p))
          \<and> sublist (''[['' @ current st @ '']]'') (content (snd p))"
    unfolding backlinks_def by (simp only: set_filter mem_Collect_eq regexp_test_backlink option.inject simp_thms) blast
  with t show ?thesis by (simp only:)
qed

text \<open>Escaped text holds no angle bracket.\<close>

lemma esc_no_markup: "CHR ''<'' \<notin> set (esc s) \<and> CHR ''>'' \<notin> set (esc s)"
  by (induction s) (auto simp: esc_def)

text \<open>Parsing a serialized block.\<close>

lemma serialize_header:
  "ps \<noteq> [] \<Longrightarrow> serialize ps = ''---\<newline>'' @ header_text ps @ ''\<newline>---'' @ ''\<newline>''"
proof -
  have "ps \<noteq> [] \<Longrightarrow>
        concat (map (\<lambda>(k, v). k @ '': '' @ v @ ''\<newline>'') ps) = header_text ps @ ''\<newline>''"
    by (induction ps rule: header_text.induct) (auto simp: case_prod_beta)
  then show "ps \<noteq> [] \<Longrightarrow> serialize ps = ''---\<newline>'' @ header_text ps @ ''\<newline>---'' @ ''\<newline>''"
    by (simp add: serialize_def)
qed

text \<open>A pattern that begins with a line feed cannot begin inside a text free of line feeds.\<close>

lemma sublist_after_line:
  assumes "CHR ''\<newline>'' \<notin> set l"
  shows "sublist (CHR ''\<newline>'' # pat) (l @ CHR ''\<newline>'' # y)
           \<longleftrightarrow> prefix pat y \<or> sublist (CHR ''\<newline>'' # pat) y"
  using assms by (induction l) (auto simp: sublist_Cons_right)

lemma no_dashes_after_key:
  assumes "\<not> prefix ''---'' k" and "CHR '':'' \<notin> set k"
  shows "\<not> prefix ''---'' (k @ CHR '':'' # r)"
proof (cases k)
  case Nil
  then show ?thesis by simp
next
  case (Cons a k1)
  show ?thesis
  proof (cases k1)
    case Nil
    with Cons show ?thesis by simp
  next
    case (Cons b k2)
    note c2 = this
    show ?thesis
    proof (cases k2)
      case Nil
      with \<open>k = a # k1\<close> c2 show ?thesis by simp
    next
      case (Cons c k3)
      with \<open>k = a # k1\<close> c2 assms(1) show ?thesis by simp
    qed
  qed
qed

lemma line_free_of_newline:
  assumes "plain_key k" and "plain_value v"
  shows "CHR ''\<newline>'' \<notin> set (k @ '': '' @ v)"
proof -
  from assms(2) have "CHR ''\<newline>'' \<notin> set v"
    by (auto simp: plain_value_def list_ex_iff is_line_terminator_def)
  with assms(1) show ?thesis by (simp add: plain_key_def)
qed

lemma header_no_closing_tail:
  assumes "ps \<noteq> []"
      and "\<forall>p\<in>set ps. plain_key (fst p) \<and> plain_value (snd p) \<and> \<not> prefix ''---'' (fst p)"
  shows "\<not> prefix ''---'' (header_text ps @ ''\<newline>--'')
         \<and> \<not> sublist ''\<newline>---'' (header_text ps @ ''\<newline>--'')"
  using assms
proof (induction ps rule: header_text.induct)
  case 1
  then show ?case by simp
next
  case (2 p)
  then have k: "plain_key (fst p)" and v: "plain_value (snd p)" and d: "\<not> prefix ''---'' (fst p)"
    by simp_all
  from k d have "\<not> prefix ''---'' (fst p @ CHR '':'' # ('' '' @ snd p @ ''\<newline>--''))"
    by (intro no_dashes_after_key) (simp_all add: plain_key_def)
  moreover have "\<not> sublist ''\<newline>---'' ((fst p @ '': '' @ snd p) @ CHR ''\<newline>'' # ''--'')"
    using line_free_of_newline [OF k v]
    by (subst sublist_after_line) (simp_all add: sublist_Cons_right)
  ultimately show ?case by simp
next
  case (3 p q ps)
  then have k: "plain_key (fst p)" and v: "plain_value (snd p)" and d: "\<not> prefix ''---'' (fst p)"
    by simp_all
  from 3 have ih: "\<not> prefix ''---'' (header_text (q # ps) @ ''\<newline>--'')"
     "\<not> sublist ''\<newline>---'' (header_text (q # ps) @ ''\<newline>--'')"
    by simp_all
  from k d have "\<not> prefix ''---''
     (fst p @ CHR '':'' # ('' '' @ snd p @ ''\<newline>'' @ header_text (q # ps) @ ''\<newline>--''))"
    by (intro no_dashes_after_key) (simp_all add: plain_key_def)
  moreover have "\<not> sublist ''\<newline>---''
     ((fst p @ '': '' @ snd p) @ CHR ''\<newline>'' # (header_text (q # ps) @ ''\<newline>--''))"
    using line_free_of_newline [OF k v] ih
    by (subst sublist_after_line) simp_all
  ultimately show ?case by simp
qed

lemma header_no_closing:
  assumes "ps \<noteq> []"
      and "\<forall>p\<in>set ps. plain_key (fst p) \<and> plain_value (snd p)"
      and "\<forall>p\<in>set (tl ps). \<not> prefix ''---'' (fst p)"
  shows "\<not> sublist ''\<newline>---'' (header_text ps @ ''\<newline>--'')"
proof (cases ps)
  case Nil
  with assms(1) show ?thesis by simp
next
  case (Cons p qs)
  with assms have k: "plain_key (fst p)" and v: "plain_value (snd p)" by simp_all
  show ?thesis
  proof (cases qs)
    case Nil
    have "\<not> sublist ''\<newline>---'' ((fst p @ '': '' @ snd p) @ CHR ''\<newline>'' # ''--'')"
      using line_free_of_newline [OF k v]
      by (subst sublist_after_line) (simp_all add: sublist_Cons_right)
    with Nil \<open>ps = p # qs\<close> show ?thesis by simp
  next
    case (Cons q rs)
    with \<open>ps = p # qs\<close> assms
    have "\<forall>p\<in>set qs. plain_key (fst p) \<and> plain_value (snd p) \<and> \<not> prefix ''---'' (fst p)"
      by simp
    with Cons header_no_closing_tail [of qs]
    have t: "\<not> prefix ''---'' (header_text qs @ ''\<newline>--'')"
            "\<not> sublist ''\<newline>---'' (header_text qs @ ''\<newline>--'')"
      by simp_all
    have "\<not> sublist ''\<newline>---''
       ((fst p @ '': '' @ snd p) @ CHR ''\<newline>'' # (header_text qs @ ''\<newline>--''))"
      using line_free_of_newline [OF k v] t
      by (subst sublist_after_line) simp_all
    with Cons \<open>ps = p # qs\<close> show ?thesis by simp
  qed
qed

lemma trim_rtrim: "s \<noteq> [] \<Longrightarrow> \<not> is_space (hd s) \<Longrightarrow> trim s = rtrim s"
  by (cases s) (simp_all add: trim_def rtrim_def)

lemma rtrim_append:
  assumes "\<exists>c\<in>set b. \<not> is_space c"
  shows "rtrim (a @ b) = a @ rtrim b"
proof -
  from assms obtain c where "c \<in> set (rev b)" and "\<not> is_space c" by auto
  then have "dropWhile is_space (rev b @ rev a) = dropWhile is_space (rev b) @ rev a"
    by (rule dropWhile_append1)
  then show ?thesis by (simp add: rtrim_def)
qed

lemma rtrim_id: "s \<noteq> [] \<Longrightarrow> \<not> is_space (last s) \<Longrightarrow> rtrim s = s"
  by (cases s rule: rev_cases) (simp_all add: rtrim_def)

lemma rtrim_Nil [simp]: "rtrim [] = []"
  by (simp add: rtrim_def)

lemma trim_id: "s = [] \<or> (\<not> is_space (hd s) \<and> \<not> is_space (last s)) \<Longrightarrow> trim s = s"
proof (cases "s = []")
  case True
  then show ?thesis by (simp add: trim_def)
next
  case False
  assume "s = [] \<or> (\<not> is_space (hd s) \<and> \<not> is_space (last s))"
  with False show ?thesis by (simp add: trim_rtrim rtrim_id)
qed

lemma colon_no_space: "\<not> is_space (CHR '':'')"
  by (simp add: is_space_def)

lemma space_is_space: "is_space (CHR '' '')"
  by (simp add: is_space_def)

text \<open>The last line of the header after trimming: a trailing blank goes when the value is empty.\<close>

lemma rtrim_line:
  assumes "plain_value v"
  shows "rtrim (k @ '': '' @ v) = (if v = [] then k @ '':'' else k @ '': '' @ v)"
proof (cases "v = []")
  case True
  have "rtrim ((k @ '':'') @ '' '') = k @ '':''"
    by (simp add: rtrim_def space_is_space colon_no_space)
  with True show ?thesis by simp
next
  case False
  with assms have "\<not> is_space (last v)" by (simp add: plain_value_def)
  with False have "rtrim (k @ '': '' @ v) = k @ '': '' @ v"
    by (intro rtrim_id) simp_all
  with False show ?thesis by simp
qed

lemma match_line:
  assumes "plain_key k" and "plain_value v"
  shows "match_property_line (k @ '': '' @ v) = Some (k, v)"
    and "match_property_line (k @ '':'' @ v) = Some (k, v)"
proof -
  from assms have c: "k \<noteq> [] \<and> CHR '':'' \<notin> set k"
    and v: "(v = [] \<or> \<not> is_space (hd v)) \<and> \<not> list_ex is_line_terminator v"
    by (auto simp: plain_key_def plain_value_def)
  have "\<exists>w. k @ '': '' @ v = k @ '':'' @ w @ v \<and> list_all is_space w"
    by (rule exI [of _ "'' ''"]) (simp add: space_is_space)
  with c v show "match_property_line (k @ '': '' @ v) = Some (k, v)"
    by (simp only: match_property_line_iff simp_thms)
  have "\<exists>w. k @ '':'' @ v = k @ '':'' @ w @ v \<and> list_all is_space w"
    by (rule exI [of _ "[]"]) simp
  with c v show "match_property_line (k @ '':'' @ v) = Some (k, v)"
    by (simp only: match_property_line_iff simp_thms)
qed

lemma split_newlines_line: "CHR ''\<newline>'' \<notin> set l \<Longrightarrow> split_newlines l = [l]"
  by (induction l) auto

lemma split_newlines_after_line:
  assumes "CHR ''\<newline>'' \<notin> set l" and "y \<noteq> []" and "hd y \<noteq> CHR ''\<newline>''"
  shows "split_newlines (l @ CHR ''\<newline>'' # y) = l # split_newlines y"
  using assms by (induction l) auto

lemma hd_rtrim: "s \<noteq> [] \<Longrightarrow> \<not> is_space (hd s) \<Longrightarrow> rtrim s \<noteq> [] \<and> hd (rtrim s) = hd s"
proof -
  assume s: "s \<noteq> []" and h: "\<not> is_space (hd s)"
  then obtain c cs where c: "s = c # cs" by (cases s) auto
  with h have "rtrim ([c] @ cs) = rtrim (([] @ [c]) @ cs)" by simp
  have "dropWhile is_space (rev cs @ [c]) = dropWhile is_space (rev cs) @ [c]"
    using h c by (simp add: dropWhile_append3)
  then have "rtrim s = c # rev (dropWhile is_space (rev cs))"
    by (simp add: rtrim_def c)
  with c show ?thesis by simp
qed

lemma newline_is_space: "is_space (CHR ''\<newline>'')"
  by (simp add: is_space_def)

lemma header_text_head:
  assumes "ps \<noteq> []" and "plain_key (fst (hd ps))"
  shows "header_text ps \<noteq> [] \<and> hd (header_text ps) = hd (fst (hd ps))
         \<and> \<not> is_space (hd (header_text ps))"
  using assms by (induction ps rule: header_text.induct) (auto simp: plain_key_def)

text \<open>The lines of the trimmed header give back the properties, one by one.\<close>

lemma header_lines:
  assumes "ps \<noteq> []"
      and "\<forall>p\<in>set ps. plain_key (fst p) \<and> plain_value (snd p)"
  shows "map match_property_line (split_newlines (rtrim (header_text ps))) = map Some ps"
  using assms
proof (induction ps rule: header_text.induct)
  case 1
  then show ?case by simp
next
  case (2 p)
  then have k: "plain_key (fst p)" and v: "plain_value (snd p)" by simp_all
  let ?l = "if snd p = [] then fst p @ '':'' else fst p @ '': '' @ snd p"
  have n: "CHR ''\<newline>'' \<notin> set ?l"
    using line_free_of_newline [OF k v] by auto
  have m: "match_property_line ?l = Some (fst p, snd p)"
    using match_line [OF k v] by auto
  from n have "split_newlines ?l = [?l]"
    by (rule split_newlines_line)
  with m have "map match_property_line (split_newlines ?l) = [Some p]"
    by simp
  then show ?case
    by (simp only: header_text.simps rtrim_line [OF v] list.map)
next
  case (3 p q ps)
  then have k: "plain_key (fst p)" and v: "plain_value (snd p)" by simp_all
  from 3 have ih: "map match_property_line (split_newlines (rtrim (header_text (q # ps))))
                     = map Some (q # ps)"
    by simp
  from 3 have kq: "plain_key (fst (hd (q # ps)))" by simp
  have "q # ps \<noteq> []" by simp
  from header_text_head [OF this kq]
  have h: "header_text (q # ps) \<noteq> []" "\<not> is_space (hd (header_text (q # ps)))"
    by blast+
  with hd_rtrim have r: "rtrim (header_text (q # ps)) \<noteq> []"
    "hd (rtrim (header_text (q # ps))) = hd (header_text (q # ps))"
    by simp_all
  from h have ex: "\<exists>c\<in>set (header_text (q # ps)). \<not> is_space c"
    by (metis hd_in_set)
  have "rtrim (header_text (p # q # ps))
          = (fst p @ '': '' @ snd p @ ''\<newline>'') @ rtrim (header_text (q # ps))"
    using rtrim_append [OF ex, of "fst p @ '': '' @ snd p @ ''\<newline>''"] by simp
  then have e: "rtrim (header_text (p # q # ps))
          = (fst p @ '': '' @ snd p) @ CHR ''\<newline>'' # rtrim (header_text (q # ps))"
    by simp
  have nl: "hd (rtrim (header_text (q # ps))) \<noteq> CHR ''\<newline>''"
    using r(2) h(2) newline_is_space by auto
  have "split_newlines (rtrim (header_text (p # q # ps)))
          = (fst p @ '': '' @ snd p) # split_newlines (rtrim (header_text (q # ps)))"
    unfolding e using line_free_of_newline [OF k v] r(1) nl
    by (rule split_newlines_after_line)
  with ih match_line(1) [OF k v] show ?case by simp
qed

lemma fold_matched_lines:
  assumes "map match_property_line ls = map Some ps"
  shows "foldl (\<lambda>props line.
                 case match_property_line line of
                   None \<Rightarrow> props
                 | Some (k, v) \<Rightarrow> assign_property (trim k) (trim v) props) acc ls
         = foldl (\<lambda>props p. assign_property (trim (fst p)) (trim (snd p)) props) acc ps"
  using assms
proof (induction ls arbitrary: ps acc)
  case Nil
  then show ?case by simp
next
  case (Cons l ls)
  then obtain p qs where ps: "ps = p # qs" and m: "match_property_line l = Some p"
    and r: "map match_property_line ls = map Some qs"
    by (cases ps) auto
  from m Cons.IH [OF r] show ?case
    by (simp add: ps case_prod_beta)
qed

lemma fold_plain_properties:
  assumes "\<forall>p\<in>set ps. plain_key (fst p) \<and> plain_value (snd p)"
  shows "foldl (\<lambda>props p. assign_property (trim (fst p)) (trim (snd p)) props) acc ps
         = foldl (\<lambda>props p. obj_put (fst p) (snd p) props) acc ps"
  using assms
proof (induction ps arbitrary: acc)
  case Nil
  then show ?case by simp
next
  case (Cons p ps)
  then have k: "plain_key (fst p)" and v: "plain_value (snd p)" by simp_all
  from k have "trim (fst p) = fst p" and "fst p \<noteq> ''__proto__''"
    by (simp_all add: plain_key_def trim_id)
  moreover from v have "trim (snd p) = snd p"
    by (simp add: plain_value_def trim_id)
  ultimately show ?case
    using Cons by (simp add: assign_property_def)
qed

lemma map_of_fold_put:
  assumes "distinct (map fst ps)"
  shows "map_of (foldl (\<lambda>props p. obj_put (fst p) (snd p) props) acc ps)
         = map_of acc ++ map_of ps"
  using assms
proof (induction ps arbitrary: acc)
  case Nil
  then show ?case by simp
next
  case (Cons p ps)
  then have d: "distinct (map fst ps)" and n: "fst p \<notin> fst ` set ps" by simp_all
  let ?f = "\<lambda>props p. obj_put (fst p) (snd p) props"
  from n have none: "map_of ps (fst p) = None"
    by (simp add: map_of_eq_None_iff)
  have "map_of (foldl ?f acc (p # ps)) = map_of (foldl ?f (obj_put (fst p) (snd p) acc) ps)"
    by simp
  also have "\<dots> = map_of (obj_put (fst p) (snd p) acc) ++ map_of ps"
    by (rule Cons.IH [OF d])
  also have "\<dots> = (map_of acc)(fst p \<mapsto> snd p) ++ map_of ps"
    by (simp only: map_of_obj_put)
  also have "\<dots> = map_of acc ++ map_of (p # ps)"
  proof
    fix x
    show "((map_of acc)(fst p \<mapsto> snd p) ++ map_of ps) x = (map_of acc ++ map_of (p # ps)) x"
      using none by (cases p) (auto simp: map_add_def split: option.splits)
  qed
  finally show ?case .
qed

lemma fold_put_appends:
  assumes "distinct (map fst ps)"
      and "fst ` set ps \<inter> fst ` set acc = {}"
      and "\<forall>p\<in>set ps. \<not> is_array_index (fst p)"
  shows "foldl (\<lambda>props p. obj_put (fst p) (snd p) props) acc ps = acc @ ps"
  using assms
proof (induction ps arbitrary: acc)
  case Nil
  then show ?case by simp
next
  case (Cons p ps)
  from Cons.prems(2) have "fst p \<notin> fst ` set acc" by auto
  then have "map_of acc (fst p) = None"
    by (simp add: map_of_eq_None_iff)
  with Cons.prems(3) have put: "obj_put (fst p) (snd p) acc = acc @ [p]"
    by (simp add: obj_put_def)
  from Cons.prems have "fst ` set ps \<inter> fst ` set (acc @ [p]) = {}"
    by auto
  with Cons.IH [of "acc @ [p]"] Cons.prems show ?case
    by (simp add: put)
qed

lemma parse_serialized:
  assumes "ps \<noteq> []"
      and "\<forall>p\<in>set ps. plain_key (fst p) \<and> plain_value (snd p)"
      and "\<forall>p\<in>set (tl ps). \<not> prefix ''---'' (fst p)"
  shows "parseFrontMatter (Some (serialize ps @ b))
           = \<lparr>props = foldl (\<lambda>props p. obj_put (fst p) (snd p) props) [] ps, body = b\<rparr>"
proof -
  have n: "\<not> sublist ''\<newline>---'' (header_text ps @ ''\<newline>--'')"
    using assms by (rule header_no_closing)
  have t: "serialize ps @ b = ''---\<newline>'' @ header_text ps @ ''\<newline>---'' @ (''\<newline>'' @ b)"
    using serialize_header [OF assms(1)] by simp
  from assms(1,2) have "plain_key (fst (hd ps))" by (cases ps) auto
  from header_text_head [OF assms(1) this]
  have h: "header_text ps \<noteq> []" "\<not> is_space (hd (header_text ps))" by blast+
  then have tr: "trim (header_text ps) = rtrim (header_text ps)"
    by (rule trim_rtrim)
  have "header_props (trim (header_text ps))
          = foldl (\<lambda>props p. obj_put (fst p) (snd p) props) [] ps"
    unfolding header_props_def tr
    using fold_matched_lines [OF header_lines [OF assms(1,2)]] fold_plain_properties [OF assms(2)]
    by simp
  moreover have "strip_newline (''\<newline>'' @ b) = b"
    by (simp add: strip_newline_def)
  ultimately show ?thesis
    unfolding t using parse_front_matter [OF n, of "''\<newline>'' @ b"] by simp
qed

text \<open>Trimming is idempotent, and defining a property adds nothing but that property.\<close>

lemma trim_is_rtrim: "trim s = rtrim (dropWhile is_space s)"
  by (simp add: trim_def rtrim_def)

lemma last_rtrim: "rtrim s \<noteq> [] \<Longrightarrow> \<not> is_space (last (rtrim s))"
proof -
  assume "rtrim s \<noteq> []"
  then have n: "dropWhile is_space (rev s) \<noteq> []"
    by (simp add: rtrim_def)
  then have "\<not> is_space (hd (dropWhile is_space (rev s)))"
    by (rule hd_dropWhile)
  with n show ?thesis
    by (simp add: rtrim_def last_rev)
qed

lemma trim_trim: "trim (trim s) = trim s"
proof (cases "trim s = []")
  case True
  have "trim [] = []" by (simp add: trim_def)
  with True show ?thesis by simp
next
  case False
  let ?d = "dropWhile is_space s"
  from False have r: "rtrim ?d \<noteq> []"
    by (simp add: trim_is_rtrim)
  have d: "?d \<noteq> []"
  proof
    assume "?d = []"
    then have "rtrim ?d = []" by (simp only: rtrim_Nil)
    with r show False by contradiction
  qed
  then have "\<not> is_space (hd ?d)"
    by (rule hd_dropWhile)
  with d have "hd (rtrim ?d) = hd ?d" and h: "\<not> is_space (hd ?d)"
    using hd_rtrim [of ?d] by simp_all
  then have "\<not> is_space (hd (trim s))"
    by (simp add: trim_is_rtrim)
  moreover from r have "\<not> is_space (last (trim s))"
    by (simp add: trim_is_rtrim last_rtrim)
  ultimately show ?thesis
    by (intro trim_id) simp
qed

lemma set_replace_value: "set (replace_value k v obj) \<subseteq> insert (k, v) (set obj)"
  by (induction obj) auto

lemma set_insert_index: "set (insert_index k v obj) = insert (k, v) (set obj)"
  by (induction obj) auto

lemma set_obj_put: "set (obj_put k v obj) \<subseteq> insert (k, v) (set obj)"
  using set_replace_value [of k v obj]
  by (auto simp: obj_put_def set_insert_index)

text \<open>Every value the parser returns is trimmed.\<close>

lemma header_values_trimmed:
  assumes "\<forall>p\<in>set acc. trim (snd p) = snd p"
  shows "\<forall>p\<in>set (foldl (\<lambda>props line.
                              case match_property_line line of
                                None \<Rightarrow> props
                              | Some (k, v) \<Rightarrow> assign_property (trim k) (trim v) props)
                       acc ls). trim (snd p) = snd p"
  using assms
proof (induction ls arbitrary: acc)
  case Nil
  then show ?case by simp
next
  case (Cons l ls)
  show ?case
  proof (cases "match_property_line l")
    case None
    with Cons show ?thesis by simp
  next
    case (Some kv)
    obtain k v where kv: "kv = (k, v)" by (cases kv)
    have "\<forall>p\<in>set (assign_property (trim k) (trim v) acc). trim (snd p) = snd p"
      using Cons.prems set_obj_put [of "trim k" "trim v" acc]
      by (auto simp: assign_property_def trim_trim)
    from Cons.IH [OF this] Some kv show ?thesis by simp
  qed
qed

lemma parsed_values_trimmed:
  "\<forall>p\<in>set (props (parseFrontMatter text)). trim (snd p) = snd p"
  using header_values_trimmed [of "[]"]
  by (auto simp: parseFrontMatter_def header_props_def split: option.splits)

text \<open>The body is a final part of the content, so what the body holds the content holds.\<close>

lemma suffix_strip_newline: "suffix (strip_newline s) s"
  by (cases s) (auto simp: strip_newline_def suffix_Cons)

lemma body_suffix: "suffix (body (parseFrontMatter (Some c))) c"
proof -
  have "suffix (strip_newline (drop n c)) c" for n
    using suffix_strip_newline [of "drop n c"] suffix_drop [of n c]
    by (rule suffix_order.trans)
  then show ?thesis
    by (auto simp: parseFrontMatter_def split: option.splits)
qed

lemma sublist_of_body:
  assumes "sublist s (body (parseFrontMatter (Some c)))"
  shows "sublist s c"
proof -
  from assms obtain ps ss where b: "body (parseFrontMatter (Some c)) = ps @ s @ ss"
    by (auto simp: sublist_def)
  from body_suffix [of c] obtain zs where "c = zs @ body (parseFrontMatter (Some c))"
    by (auto simp: suffix_def)
  with b have "c = (zs @ ps) @ s @ ss" by simp
  then show ?thesis
    unfolding sublist_def by blast
qed

text \<open>
  The properties of a header, read from its lines. When no matching line has the trimmed
  key \<^verbatim>\<open>__proto__\<close>, every assignment of the loop defines an own property, and the value
  a key ends with is the one the last matching line with that key gave it.
\<close>

lemma fold_property_lines:
  assumes "''__proto__'' \<notin> fst ` set (List.map_filter
             (\<lambda>line. map_option (\<lambda>(k, v). (trim k, trim v)) (match_property_line line)) ls)"
  shows "foldl (\<lambda>props line.
                 case match_property_line line of
                   None \<Rightarrow> props
                 | Some (k, v) \<Rightarrow> assign_property (trim k) (trim v) props) acc ls
         = foldl (\<lambda>props p. obj_put (fst p) (snd p) props) acc
             (List.map_filter
                (\<lambda>line. map_option (\<lambda>(k, v). (trim k, trim v)) (match_property_line line)) ls)"
  using assms
proof (induction ls arbitrary: acc)
  case Nil
  then show ?case by (simp add: map_filter_simps)
next
  case (Cons l ls)
  show ?case
  proof (cases "match_property_line l")
    case None
    with Cons show ?thesis by (simp add: map_filter_simps)
  next
    case (Some p)
    obtain k v where p: "p = (k, v)" by (cases p)
    from Cons.prems Some p have n: "trim k \<noteq> ''__proto__''"
      and r: "''__proto__'' \<notin> fst ` set (List.map_filter
             (\<lambda>line. map_option (\<lambda>(k, v). (trim k, trim v)) (match_property_line line)) ls)"
      by (auto simp: map_filter_simps)
    from Cons.IH [OF r] Some p n show ?thesis
      by (simp add: map_filter_simps assign_property_def)
  qed
qed

lemma header_props_property_lines:
  assumes "''__proto__'' \<notin> fst ` set (property_lines header)"
  shows "header_props header
         = foldl (\<lambda>props p. obj_put (fst p) (snd p) props) [] (property_lines header)"
  using assms unfolding header_props_def property_lines_def by (rule fold_property_lines)

lemma map_of_fold_put_rev:
  "map_of (foldl (\<lambda>props p. obj_put (fst p) (snd p) props) acc ps)
   = map_of acc ++ map_of (rev ps)"
proof (induction ps arbitrary: acc)
  case Nil
  then show ?case by simp
next
  case (Cons p ps)
  let ?f = "\<lambda>props p. obj_put (fst p) (snd p) props"
  have "map_of (foldl ?f acc (p # ps)) = map_of (foldl ?f (obj_put (fst p) (snd p) acc) ps)"
    by simp
  also have "\<dots> = map_of (obj_put (fst p) (snd p) acc) ++ map_of (rev ps)"
    by (rule Cons.IH)
  also have "\<dots> = (map_of acc)(fst p \<mapsto> snd p) ++ map_of (rev ps)"
    by (simp only: map_of_obj_put)
  also have "\<dots> = map_of acc ++ map_of (rev (p # ps))"
  proof
    fix x
    show "((map_of acc)(fst p \<mapsto> snd p) ++ map_of (rev ps)) x
          = (map_of acc ++ map_of (rev (p # ps))) x"
      by (cases p) (auto simp: map_add_def split: option.splits)
  qed
  finally show ?case .
qed

lemma map_of_rev_last:
  "map_of (rev xs) k = Some v
   \<longleftrightarrow> (\<exists>ys zs. xs = ys @ (k, v) # zs \<and> k \<notin> fst ` set zs)"
proof (induction xs)
  case Nil
  then show ?case by simp
next
  case (Cons x xs)
  have split: "(\<exists>ys zs. x # xs = ys @ (k, v) # zs \<and> k \<notin> fst ` set zs)
               \<longleftrightarrow> (x = (k, v) \<and> k \<notin> fst ` set xs)
                   \<or> (\<exists>ys zs. xs = ys @ (k, v) # zs \<and> k \<notin> fst ` set zs)"
    by (auto simp: Cons_eq_append_conv)
  show ?case
  proof (cases "map_of (rev xs) k")
    case None
    then have n: "k \<notin> fst ` set xs" by (simp add: map_of_eq_None_iff)
    from None Cons.IH have no: "\<not> (\<exists>ys zs. xs = ys @ (k, v) # zs \<and> k \<notin> fst ` set zs)"
      by simp
    from None have "map_of (rev (x # xs)) k = map_of [x] k"
      by (simp add: map_add_def)
    also have "\<dots> = Some v \<longleftrightarrow> x = (k, v)" by (cases x) auto
    finally show ?thesis using split n no by simp
  next
    case (Some w)
    then have i: "k \<in> fst ` set xs"
      by (metis map_of_eq_None_iff option.distinct(1) set_rev)
    from Some have "map_of (rev (x # xs)) k = Some w" by (simp add: map_add_def)
    with Some Cons.IH split i show ?thesis by simp
  qed
qed

lemma map_filter_split:
  "(\<exists>ys zs. List.map_filter f xs = ys @ z # zs \<and> Q zs)
   \<longleftrightarrow> (\<exists>as x bs. xs = as @ x # bs \<and> f x = Some z \<and> Q (List.map_filter f bs))"
proof (induction xs)
  case Nil
  then show ?case by (simp add: map_filter_simps)
next
  case (Cons a xs)
  have r: "(\<exists>as x bs. a # xs = as @ x # bs \<and> f x = Some z \<and> Q (List.map_filter f bs))
           \<longleftrightarrow> (f a = Some z \<and> Q (List.map_filter f xs))
               \<or> (\<exists>as x bs. xs = as @ x # bs \<and> f x = Some z \<and> Q (List.map_filter f bs))"
    by (auto simp: Cons_eq_append_conv)
  show ?case
  proof (cases "f a")
    case None
    with Cons r show ?thesis by (simp add: map_filter_simps)
  next
    case (Some w)
    have "(\<exists>ys zs. w # List.map_filter f xs = ys @ z # zs \<and> Q zs)
          \<longleftrightarrow> (w = z \<and> Q (List.map_filter f xs))
              \<or> (\<exists>ys zs. List.map_filter f xs = ys @ z # zs \<and> Q zs)"
      by (auto simp: Cons_eq_append_conv)
    with Some Cons r show ?thesis by (simp add: map_filter_simps)
  qed
qed

lemma property_lines_keys:
  "key \<notin> fst ` set (List.map_filter
       (\<lambda>line. map_option (\<lambda>(k, v). (trim k, trim v)) (match_property_line line)) ls)
   \<longleftrightarrow> (\<forall>line\<in>set ls. \<forall>k v. match_property_line line = Some (k, v) \<longrightarrow> trim k \<noteq> key)"
  by (induction ls) (auto simp: map_filter_simps split: option.splits)

lemma header_props_last:
  assumes "\<forall>line\<in>set (split_newlines header).
             \<forall>k v. match_property_line line = Some (k, v) \<longrightarrow> trim k \<noteq> ''__proto__''"
  shows "map_of (header_props header) key = Some val
         \<longleftrightarrow> (\<exists>before line after k v.
                split_newlines header = before @ line # after
                \<and> match_property_line line = Some (k, v) \<and> trim k = key \<and> trim v = val
                \<and> (\<forall>l\<in>set after. \<forall>k' v'. match_property_line l = Some (k', v')
                      \<longrightarrow> trim k' \<noteq> key))"
proof -
  let ?f = "\<lambda>line. map_option (\<lambda>(k, v). (trim k, trim v)) (match_property_line line)"
  from assms have p: "''__proto__'' \<notin> fst ` set (property_lines header)"
    unfolding property_lines_def by (simp only: property_lines_keys)
  have "map_of (header_props header) = map_of (rev (property_lines header))"
    by (simp only: header_props_property_lines [OF p] map_of_fold_put_rev) simp
  then have "map_of (header_props header) key = Some val
         \<longleftrightarrow> (\<exists>ys zs. List.map_filter ?f (split_newlines header) = ys @ (key, val) # zs
                        \<and> key \<notin> fst ` set zs)"
    by (simp only: map_of_rev_last property_lines_def)
  also have "\<dots> \<longleftrightarrow> (\<exists>as x bs. split_newlines header = as @ x # bs \<and> ?f x = Some (key, val)
                        \<and> key \<notin> fst ` set (List.map_filter ?f bs))"
    by (rule map_filter_split)
  also have "\<dots> \<longleftrightarrow> (\<exists>as x bs. split_newlines header = as @ x # bs
                        \<and> (\<exists>k v. match_property_line x = Some (k, v) \<and> trim k = key \<and> trim v = val)
                        \<and> (\<forall>l\<in>set bs. \<forall>k' v'. match_property_line l = Some (k', v')
                              \<longrightarrow> trim k' \<noteq> key))"
    by (simp only: property_lines_keys) (auto split: option.splits)
  finally show ?thesis by blast
qed

text \<open>
  The lines of a text: a line, a run of one or more line feeds, and a remainder that does
  not begin with a line feed split as the line followed by the lines of the remainder.
\<close>

lemma split_newlines_run:
  assumes "y = [] \<or> hd y \<noteq> CHR ''\<newline>''"
  shows "split_newlines (replicate (Suc n) (CHR ''\<newline>'') @ y) = [] # split_newlines y"
  using assms
proof (induction n)
  case 0
  then show ?case by (cases y) auto
next
  case (Suc n)
  then show ?case by simp
qed

lemma split_newlines_after_run:
  assumes "CHR ''\<newline>'' \<notin> set l" and "y = [] \<or> hd y \<noteq> CHR ''\<newline>''"
  shows "split_newlines (l @ replicate (Suc n) (CHR ''\<newline>'') @ y) = l # split_newlines y"
  using assms(1)
proof (induction l)
  case Nil
  from split_newlines_run [OF assms(2)] show ?case by simp
next
  case (Cons c l)
  then show ?case by auto
qed

lemma strip_newline_prefix:
  "strip_newline s = (if prefix ''\<newline>'' s then drop 1 s else s)"
  by (cases s) (auto simp: strip_newline_def)

section \<open>Properties of the store operations\<close>

text \<open>
  What a restore does at an index inside the trash: the entry leaves the trash, the
  chosen title receives a fresh record with the entry's content and the current time,
  every other title keeps its record, and the chosen title becomes the selection.
\<close>

lemma restoreTrash_effect:
  assumes "idx < length (d_trash st)"
  defines "item \<equiv> d_trash st ! idx"
  defines "t \<equiv> (if truthy_at (d_notes st) (title item)
                  then title item @ '' (restored)'' else title item)"
  shows "\<exists>st'. restoreTrash now idx st = Inr st'
           \<and> d_trash st' = take idx (d_trash st) @ drop (Suc idx) (d_trash st)
           \<and> map_of (d_notes st')
               = (map_of (d_notes st))(t \<mapsto> \<lparr>content = tcontent item, updated = now\<rparr>)
           \<and> current st' = t"
  using assms
  by (simp add: restoreTrash_def Let_def map_of_obj_put filter_index_take_drop)

text \<open>
  A restore under the original title never touches an existing record, since that title
  is chosen only when no active note has it.
\<close>

lemma restoreTrash_original_title:
  assumes "idx < length (d_trash st)"
      and "\<not> truthy_at (d_notes st) (title (d_trash st ! idx))"
      and "restoreTrash now idx st = Inr st'"
      and "map_of (d_notes st) k = Some n"
  shows "map_of (d_notes st') k = Some n"
proof -
  from assms(2,4) have "k \<noteq> title (d_trash st ! idx)"
    by (auto simp: truthy_at_def)
  with assms show ?thesis
    by (auto simp: restoreTrash_def Let_def map_of_obj_put)
qed

text \<open>
  A trash entry titled like a property every object inherits is restored under the
  suffixed title although no note has that title.
\<close>

lemma restore_inherited_name:
  "restoreTrash 9 0 \<lparr>d_notes = [], d_trash = [\<lparr>title = ''constructor'', tcontent = ''x'',
                                                deletedAt = 1\<rparr>], current = ''Home''\<rparr>
     = Inr \<lparr>d_notes = [(''constructor (restored)'', \<lparr>content = ''x'', updated = 9\<rparr>)],
            d_trash = [],
            current = ''constructor (restored)''\<rparr>"
  by (simp add: restoreTrash_def truthy_at_def object_prototype_names_def obj_put_def
      filter_index_def is_array_index_def is_digit_def Let_def)

text \<open>
  A successful rename in the pro version moves the record as it is, time stamp included:
  the function never reads the clock.
\<close>

lemma renameNote_moves:
  assumes "map_of (d_notes st) (current st) = Some n"
      and "nt \<noteq> ''''" and "nt \<noteq> current st" and "\<not> truthy_at (d_notes st) nt"
  shows "\<exists>st'. renameNote (Some nt) st = Inr (None, st')
           \<and> map_of (d_notes st') = ((map_of (d_notes st))(nt \<mapsto> n))(current st := None)
           \<and> current st' = nt \<and> d_trash st' = d_trash st"
  using assms
  by (simp add: renameNote_def map_of_obj_delete map_of_obj_put)

text \<open>
  The first version does what the rename is specified to do: the record moves under the
  new key with its content, its time stamp becomes the current time, and the selection
  follows.
\<close>

lemma renameNote_v1_moves:
  assumes "map_of (notes_v1 st) oldTitle = Some n"
      and "newTitle \<noteq> ''''" and "newTitle \<noteq> oldTitle"
      and "\<not> truthy_at (notes_v1 st) newTitle"
  shows "\<exists>st'. renameNote_v1 now oldTitle newTitle st = Inr (None, st')
           \<and> map_of (notes_v1 st')
               = ((map_of (notes_v1 st))(newTitle \<mapsto> \<lparr>content = content n, updated = now\<rparr>))
                   (oldTitle := None)
           \<and> current_v1 st' = newTitle"
  using assms
  by (cases n) (auto simp: renameNote_v1_def map_of_obj_delete map_of_obj_put)

text \<open>
  What a confirmed soft delete of an active title does in a store without an empty title:
  the snapshot goes in front of the trash, the title and nothing else leaves the active
  notes, and the selection, if it was on that title, moves to a remaining active title, or
  to "Home" when none remains.
\<close>

lemma softDelete_active:
  assumes "map_of (d_notes st) T = Some n"
      and "'''' \<notin> set (keys (d_notes st))"
  shows "d_trash (softDeleteNote True now T st)
           = \<lparr>title = T, tcontent = content n, deletedAt = now\<rparr> # d_trash st
         \<and> map_of (d_notes (softDeleteNote True now T st)) = (map_of (d_notes st))(T := None)
         \<and> keys (d_notes (softDeleteNote True now T st)) = filter (\<lambda>t. t \<noteq> T) (keys (d_notes st))
         \<and> (current st = T \<longrightarrow>
              (if keys (d_notes (softDeleteNote True now T st)) = []
               then current (softDeleteNote True now T st) = ''Home''
               else current (softDeleteNote True now T st)
                      \<in> set (keys (d_notes (softDeleteNote True now T st)))))
         \<and> (current st \<noteq> T \<longrightarrow> current (softDeleteNote True now T st) = current st)"
proof -
  let ?st' = "softDeleteNote True now T st"
  have notes': "d_notes ?st' = obj_delete T (d_notes st)"
    by (simp add: softDeleteNote_def Let_def)
  have tr: "d_trash ?st' = \<lparr>title = T, tcontent = content n, deletedAt = now\<rparr> # d_trash st"
    using assms(1) by (simp add: softDeleteNote_def Let_def)
  have other: "current st \<noteq> T \<longrightarrow> current ?st' = current st"
    by (auto simp: softDeleteNote_def Let_def)
  have sel: "current st = T \<longrightarrow>
              (if keys (d_notes ?st') = [] then current ?st' = ''Home''
               else current ?st' \<in> set (keys (d_notes ?st')))"
  proof
    assume c: "current st = T"
    show "if keys (d_notes ?st') = [] then current ?st' = ''Home''
          else current ?st' \<in> set (keys (d_notes ?st'))"
    proof (cases "keys (obj_delete T (d_notes st))")
      case Nil
      with c softDelete_selection [of now st] show ?thesis by (simp add: notes')
    next
      case (Cons t ts)
      then have "t \<in> set (keys (d_notes st))"
        by (metis Diff_iff list.set_intros(1) set_keys_obj_delete)
      with assms(2) have "t \<noteq> ''''" by auto
      with c Cons softDelete_selection [of now st] show ?thesis by (simp add: notes')
    qed
  qed
  from tr other sel show ?thesis
    by (simp add: notes' map_of_obj_delete keys_obj_delete)
qed

section \<open>The claims\<close>

text \<open>
  C1. The claim: a restore at an index inside the trash removes that entry, creates a note
  under the entry's title, or under the title followed by " (restored)" when the title is
  active, and overwrites or removes no existing record. The code at a store where both
  "Project" and "Project (restored)" are active and the trash holds an older "Project":
  the restore succeeds, and the record of "Project (restored)" is replaced by the
  restored content.
\<close>

theorem restore_overwrites_suffixed_note:
  "map_of (d_notes twice_deleted_store) ''Project (restored)''
     = Some \<lparr>content = ''second draft'', updated = 6\<rparr>
   \<and> restoreTrash 9 0 twice_deleted_store
     = Inr \<lparr>d_notes = [(''Project'', \<lparr>content = ''third draft'', updated = 5\<rparr>),
                       (''Project (restored)'', \<lparr>content = ''first draft'', updated = 9\<rparr>)],
            d_trash = [],
            current = ''Project (restored)''\<rparr>"
  by (simp add: twice_deleted_store_def restoreTrash_def truthy_at_def obj_put_def Let_def
      filter_index_def)

text \<open>
  C2. The claim: a rename to a fresh, non-empty title moves the record with its content,
  sets its time stamp to the current time and moves the selection. The code of the pro
  version at a store with the single note "Draft", last updated at time 1: the record
  moves to "Final" and the selection follows, but the time stamp is still 1, whatever
  the current time is.
\<close>

theorem rename_keeps_old_timestamp:
  "renameNote (Some ''Final'') single_note_store
     = Inr (None, \<lparr>d_notes = [(''Final'', \<lparr>content = ''text'', updated = 1\<rparr>)],
                   d_trash = [],
                   current = ''Final''\<rparr>)"
  by (simp add: single_note_store_def renameNote_def truthy_at_def obj_put_def obj_delete_def
      object_prototype_names_def is_array_index_def is_digit_def)

text \<open>
  C3, as stated, fails. The claim takes the closing delimiter to be a line consisting of
  \<^verbatim>\<open>---\<close>. In the first text below no line after the opening one is \<^verbatim>\<open>---\<close> (the
  third is a rule of four dashes), so the claim gives empty properties and the whole text
  as body; the code closes the block at the first three dashes that follow a line feed.
  In the second text the second line is \<^verbatim>\<open>---\<close>, which the claim takes as the closing
  delimiter of an empty block; the code searches from offset 4 on, finds none and returns
  the whole text as body. In the third a \<^verbatim>\<open>key: value\<close> line between the delimiters
  does not become a property: its key is \<^verbatim>\<open>__proto__\<close>, and the assignment goes to the
  setter every object inherits.
\<close>

theorem parseFrontMatter_delimiter_counterexample:
  "''---'' \<notin> set (tl (split_lines ''---\<newline>a: b\<newline>----\<newline>text''))
   \<and> parseFrontMatter (Some ''---\<newline>a: b\<newline>----\<newline>text'')
       = \<lparr>props = [(''a'', ''b'')], body = ''-\<newline>text''\<rparr>
   \<and> parseFrontMatter (Some ''---\<newline>a: b\<newline>----\<newline>text'')
       \<noteq> \<lparr>props = [], body = ''---\<newline>a: b\<newline>----\<newline>text''\<rparr>
   \<and> ''---'' \<in> set (tl (split_lines ''---\<newline>---\<newline>text''))
   \<and> parseFrontMatter (Some ''---\<newline>---\<newline>text'')
       = \<lparr>props = [], body = ''---\<newline>---\<newline>text''\<rparr>
   \<and> match_property_line ''__proto__: x'' = Some (''__proto__'', ''x'')
   \<and> parseFrontMatter (Some ''---\<newline>__proto__: x\<newline>---\<newline>'')
       = \<lparr>props = [], body = ''''\<rparr>"
  by (simp add: parseFrontMatter_def startsWith_def indexOf_def slice_def trim_def
      is_space_def header_props_def match_property_line_def is_line_terminator_def
      assign_property_def obj_put_def is_array_index_def is_digit_def strip_newline_def)

text \<open>
  C3, amended. Absent content gives no properties and the empty body. If the content does
  not begin with \<^verbatim>\<open>---\<close> and a line feed, or the four characters line feed, \<^verbatim>\<open>---\<close> do
  not occur at offset 4 or later, the result is no properties and the whole content as
  body. Otherwise the content splits as the opening line, a header, the first such four
  characters and a rest, and the body is the rest with one leading line feed removed.
  These cases cover every content, and each gives a result.

  The lines of the header are the pieces of the trimmed header between runs of line
  feeds: a text free of line feeds is one line, and a line, a run of one or more line
  feeds and a remainder that does not begin with a line feed are that line followed by
  the lines of the remainder. A line matches exactly when it is a non-empty key free of
  colons, a colon, white space, and a value that neither starts with white space nor
  holds a line terminator.

  For a header none of whose matching lines has the trimmed key \<^verbatim>\<open>__proto__\<close>, a key has
  a value among the properties exactly when some line matches with that key and that
  value, both trimmed, and no later line matches with the same trimmed key: every
  matching line becomes a property, the last one winning, and the lines that do not
  match add nothing.
\<close>

theorem parseFrontMatter_cases:
  "parseFrontMatter None = \<lparr>props = [], body = ''''\<rparr>
   \<and> (\<not> prefix ''---\<newline>'' t \<or> \<not> sublist ''\<newline>---'' (drop 4 t) \<longrightarrow>
        parseFrontMatter (Some t) = \<lparr>props = [], body = t\<rparr>)
   \<and> (prefix ''---\<newline>'' t \<and> sublist ''\<newline>---'' (drop 4 t) \<longrightarrow>
        (\<exists>hdr rest. t = ''---\<newline>'' @ hdr @ ''\<newline>---'' @ rest
           \<and> \<not> sublist ''\<newline>---'' (hdr @ ''\<newline>--'')))
   \<and> (\<not> sublist ''\<newline>---'' (hdr @ ''\<newline>--'') \<longrightarrow>
        body (parseFrontMatter (Some (''---\<newline>'' @ hdr @ ''\<newline>---'' @ rest)))
          = (if prefix ''\<newline>'' rest then drop 1 rest else rest))
   \<and> (\<not> sublist ''\<newline>---'' (hdr @ ''\<newline>--'')
        \<and> (\<forall>line\<in>set (split_newlines (trim hdr)).
              \<forall>k v. match_property_line line = Some (k, v) \<longrightarrow> trim k \<noteq> ''__proto__'') \<longrightarrow>
        (map_of (props (parseFrontMatter (Some (''---\<newline>'' @ hdr @ ''\<newline>---'' @ rest)))) key
           = Some val
         \<longleftrightarrow> (\<exists>before line after k v.
                split_newlines (trim hdr) = before @ line # after
                \<and> match_property_line line = Some (k, v) \<and> trim k = key \<and> trim v = val
                \<and> (\<forall>l\<in>set after. \<forall>k' v'. match_property_line l = Some (k', v')
                      \<longrightarrow> trim k' \<noteq> key))))
   \<and> (CHR ''\<newline>'' \<notin> set l \<longrightarrow> split_newlines l = [l])
   \<and> (CHR ''\<newline>'' \<notin> set l \<and> (y = [] \<or> hd y \<noteq> CHR ''\<newline>'') \<longrightarrow>
        split_newlines (l @ replicate (Suc n) (CHR ''\<newline>'') @ y) = l # split_newlines y)
   \<and> (match_property_line ln = Some (g, w) \<longleftrightarrow>
        g \<noteq> [] \<and> CHR '':'' \<notin> set g
        \<and> (\<exists>sp. ln = g @ '':'' @ sp @ w \<and> list_all is_space sp)
        \<and> (w = [] \<or> \<not> is_space (hd w))
        \<and> \<not> list_ex is_line_terminator w)"
proof -
  let ?t = "''---\<newline>'' @ hdr @ ''\<newline>---'' @ rest"
  have a: "parseFrontMatter None = \<lparr>props = [], body = ''''\<rparr>"
    by (simp add: parseFrontMatter_def)
  have r: "parseFrontMatter (Some ?t)
             = \<lparr>props = header_props (trim hdr), body = strip_newline rest\<rparr>"
    if "\<not> sublist ''\<newline>---'' (hdr @ ''\<newline>--'')"
    using that by (rule parse_front_matter)
  have b: "body (parseFrontMatter (Some ?t)) = (if prefix ''\<newline>'' rest then drop 1 rest else rest)"
    if "\<not> sublist ''\<newline>---'' (hdr @ ''\<newline>--'')"
    by (simp only: r [OF that] front_matter.simps strip_newline_prefix)
  have c: "map_of (props (parseFrontMatter (Some ?t))) key = Some val
         \<longleftrightarrow> (\<exists>before line after k v.
                split_newlines (trim hdr) = before @ line # after
                \<and> match_property_line line = Some (k, v) \<and> trim k = key \<and> trim v = val
                \<and> (\<forall>l\<in>set after. \<forall>k' v'. match_property_line l = Some (k', v')
                      \<longrightarrow> trim k' \<noteq> key))"
    if s: "\<not> sublist ''\<newline>---'' (hdr @ ''\<newline>--'')"
      and p: "\<forall>line\<in>set (split_newlines (trim hdr)).
              \<forall>k v. match_property_line line = Some (k, v) \<longrightarrow> trim k \<noteq> ''__proto__''"
    using header_props_last [OF p, of key val]
    by (simp only: r [OF s] front_matter.simps)
  from a b c parse_no_front_matter [of t] front_matter_split [of t]
       match_property_line_iff [of ln g w] split_newlines_line [of l]
       split_newlines_after_run [of l y n]
  show ?thesis by blast
qed

theorem parseFrontMatter_cases_witness:
  "\<not> prefix ''---\<newline>'' ''plain text''
   \<and> parseFrontMatter (Some ''plain text'') = \<lparr>props = [], body = ''plain text''\<rparr>
   \<and> prefix ''---\<newline>'' ''---\<newline>a: b\<newline>---\<newline>c''
   \<and> sublist ''\<newline>---'' (drop 4 ''---\<newline>a: b\<newline>---\<newline>c'')
   \<and> (\<exists>hdr rest. ''---\<newline>a: b\<newline>---\<newline>c'' = ''---\<newline>'' @ hdr @ ''\<newline>---'' @ rest
          \<and> \<not> sublist ''\<newline>---'' (hdr @ ''\<newline>--''))
   \<and> \<not> sublist ''\<newline>---''
         (''priority: high\<newline>\<newline>not a property\<newline> project :  notes \<newline>priority: low\<newline>''
          @ ''\<newline>--'')
   \<and> split_newlines
         (trim ''priority: high\<newline>\<newline>not a property\<newline> project :  notes \<newline>priority: low\<newline>'')
       = [''priority: high'', ''not a property'', '' project :  notes '', ''priority: low'']
   \<and> match_property_line ''priority: high'' = Some (''priority'', ''high'')
   \<and> match_property_line ''not a property'' = None
   \<and> match_property_line '' project :  notes '' = Some ('' project '', ''notes '')
   \<and> match_property_line ''priority: low'' = Some (''priority'', ''low'')
   \<and> body (parseFrontMatter (Some (''---\<newline>''
         @ ''priority: high\<newline>\<newline>not a property\<newline> project :  notes \<newline>priority: low\<newline>''
         @ ''\<newline>---'' @ ''\<newline>\<newline>Hi [[Bob]]''))) = ''\<newline>Hi [[Bob]]''
   \<and> map_of (props (parseFrontMatter (Some (''---\<newline>''
         @ ''priority: high\<newline>\<newline>not a property\<newline> project :  notes \<newline>priority: low\<newline>''
         @ ''\<newline>---'' @ ''\<newline>\<newline>Hi [[Bob]]'')))) ''priority'' = Some ''low''
   \<and> map_of (props (parseFrontMatter (Some (''---\<newline>''
         @ ''priority: high\<newline>\<newline>not a property\<newline> project :  notes \<newline>priority: low\<newline>''
         @ ''\<newline>---'' @ ''\<newline>\<newline>Hi [[Bob]]'')))) ''project'' = Some ''notes''
   \<and> CHR ''\<newline>'' \<notin> set ''priority: high''
   \<and> split_newlines ''priority: high'' = [''priority: high'']
   \<and> hd ''not a property'' \<noteq> CHR ''\<newline>''
   \<and> split_newlines (''priority: high'' @ replicate (Suc 1) (CHR ''\<newline>'') @ ''not a property'')
       = ''priority: high'' # split_newlines ''not a property''"
proof -
  let ?h = "''priority: high\<newline>\<newline>not a property\<newline> project :  notes \<newline>priority: low\<newline>''"
  let ?r = "''\<newline>\<newline>Hi [[Bob]]''"
  let ?t = "''---\<newline>a: b\<newline>---\<newline>c''"
  have h1: "\<not> prefix ''---\<newline>'' ''plain text''" by simp
  have h3: "prefix ''---\<newline>'' ?t" by simp
  have h4: "sublist ''\<newline>---'' (drop 4 ?t)"
    by (simp add: sublist_Cons_right)
  have h2: "\<not> sublist ''\<newline>---'' (?h @ ''\<newline>--'')"
    by (simp add: sublist_Cons_right)
  have sp: "split_newlines (trim ?h)
       = [''priority: high'', ''not a property'', '' project :  notes '', ''priority: low'']"
    by (simp add: trim_def is_space_def)
  have m: "match_property_line ''priority: high'' = Some (''priority'', ''high'')"
          "match_property_line ''not a property'' = None"
          "match_property_line '' project :  notes '' = Some ('' project '', ''notes '')"
          "match_property_line ''priority: low'' = Some (''priority'', ''low'')"
    by (simp_all add: match_property_line_def is_space_def is_line_terminator_def)
  have tr: "trim ''priority'' = ''priority''" "trim '' project '' = ''project''"
           "trim ''notes '' = ''notes''" "trim ''low'' = ''low''"
    by (simp_all add: trim_def is_space_def)
  have p: "\<forall>line\<in>set (split_newlines (trim ?h)).
             \<forall>k v. match_property_line line = Some (k, v) \<longrightarrow> trim k \<noteq> ''__proto__''"
    unfolding sp using m tr by auto
  have n1: "CHR ''\<newline>'' \<notin> set ''priority: high''" by simp
  have n2: "hd ''not a property'' \<noteq> CHR ''\<newline>''" by simp
  have x1: "\<exists>before line after k v.
              split_newlines (trim ?h) = before @ line # after
              \<and> match_property_line line = Some (k, v)
              \<and> trim k = ''priority'' \<and> trim v = ''low''
              \<and> (\<forall>l\<in>set after. \<forall>k' v'. match_property_line l = Some (k', v')
                    \<longrightarrow> trim k' \<noteq> ''priority'')"
    by (rule exI [of _ "[''priority: high'', ''not a property'', '' project :  notes '']"],
        rule exI [of _ "''priority: low''"], rule exI [of _ "[]"],
        rule exI [of _ "''priority''"], rule exI [of _ "''low''"])
       (simp add: sp m tr)
  have x2: "\<exists>before line after k v.
              split_newlines (trim ?h) = before @ line # after
              \<and> match_property_line line = Some (k, v)
              \<and> trim k = ''project'' \<and> trim v = ''notes''
              \<and> (\<forall>l\<in>set after. \<forall>k' v'. match_property_line l = Some (k', v')
                    \<longrightarrow> trim k' \<noteq> ''project'')"
    by (rule exI [of _ "[''priority: high'', ''not a property'']"],
        rule exI [of _ "'' project :  notes ''"], rule exI [of _ "[''priority: low'']"],
        rule exI [of _ "'' project ''"], rule exI [of _ "''notes ''"])
       (simp add: sp m tr)
  note c = parseFrontMatter_cases [where t = "''plain text''" and hdr = ?h and rest = ?r
         and key = "''priority''" and val = "''low''" and l = "''priority: high''"
         and y = "''not a property''" and n = 1]
  note d = parseFrontMatter_cases [where t = ?t and hdr = ?h and rest = ?r
         and key = "''project''" and val = "''notes''"]
  from c [THEN conjunct2, THEN conjunct1] h1
  have a1: "parseFrontMatter (Some ''plain text'') = \<lparr>props = [], body = ''plain text''\<rparr>"
    by (simp only: simp_thms)
  from d [THEN conjunct2, THEN conjunct2, THEN conjunct1] h3 h4
  have a2: "\<exists>hdr rest. ?t = ''---\<newline>'' @ hdr @ ''\<newline>---'' @ rest
              \<and> \<not> sublist ''\<newline>---'' (hdr @ ''\<newline>--'')"
    by (simp only: simp_thms)
  from c [THEN conjunct2, THEN conjunct2, THEN conjunct2, THEN conjunct1] h2
  have "body (parseFrontMatter (Some (''---\<newline>'' @ ?h @ ''\<newline>---'' @ ?r)))
          = (if prefix ''\<newline>'' ?r then drop 1 ?r else ?r)"
    by (simp only: simp_thms)
  also have "\<dots> = ''\<newline>Hi [[Bob]]''" by simp
  finally have a3: "body (parseFrontMatter (Some (''---\<newline>'' @ ?h @ ''\<newline>---'' @ ?r)))
          = ''\<newline>Hi [[Bob]]''" .
  from c [THEN conjunct2, THEN conjunct2, THEN conjunct2, THEN conjunct2, THEN conjunct1] h2 p x1
  have a4: "map_of (props (parseFrontMatter (Some (''---\<newline>'' @ ?h @ ''\<newline>---'' @ ?r))))
              ''priority'' = Some ''low''"
    by (simp only: simp_thms)
  from d [THEN conjunct2, THEN conjunct2, THEN conjunct2, THEN conjunct2, THEN conjunct1] h2 p x2
  have a5: "map_of (props (parseFrontMatter (Some (''---\<newline>'' @ ?h @ ''\<newline>---'' @ ?r))))
              ''project'' = Some ''notes''"
    by (simp only: simp_thms)
  from c [THEN conjunct2, THEN conjunct2, THEN conjunct2, THEN conjunct2, THEN conjunct2,
          THEN conjunct1] n1
  have a6: "split_newlines ''priority: high'' = [''priority: high'']"
    by (simp only: simp_thms)
  from c [THEN conjunct2, THEN conjunct2, THEN conjunct2, THEN conjunct2, THEN conjunct2,
          THEN conjunct2, THEN conjunct1] n1 n2
  have a7: "split_newlines (''priority: high'' @ replicate (Suc 1) (CHR ''\<newline>'')
                             @ ''not a property'')
            = ''priority: high'' # split_newlines ''not a property''"
    by (simp only: simp_thms)
  show ?thesis
    by (intro conjI h1 a1 h3 h4 a2 h2 sp m a3 a4 a5 n1 a6 n2 a7)
qed

text \<open>
  C4, as stated, fails. The claim counts a note as a backlink of \<open>T\<close> when its body holds
  a link token whose trimmed target is \<open>T\<close>. The note "Project" holds \<^verbatim>\<open>[[ Home ]]\<close>,
  whose trimmed target is "Home", and is not among the backlinks of "Home". The note
  "Log" holds \<^verbatim>\<open>[[Home]]\<close> in its front matter only, its body holds no link, and it is
  among them.
\<close>

theorem backlinks_trim_counterexample:
  "map_of (d_notes spaced_link_store) ''Project'' = Some \<lparr>content = ''see [[ Home ]]'', updated = 2\<rparr>
   \<and> ''Home'' \<in> set (wikilink_titles 0 ''see [[ Home ]]'')
   \<and> ''Project'' \<notin> fst ` set (backlinks spaced_link_store)
   \<and> body (parseFrontMatter (Some ''---\<newline>ref: [[Home]]\<newline>---\<newline>nothing'')) = ''nothing''
   \<and> wikilink_titles 0 ''nothing'' = []
   \<and> ''Log'' \<in> fst ` set (backlinks spaced_link_store)"
  by (simp add: spaced_link_store_def backlinks_def regexp_test_def backlink_pattern_def
      escapeRegExp_def regex_specials_def match_span_def startsWith_def Let_def trim_def
      is_space_def parseFrontMatter_def indexOf_def strip_newline_def)

text \<open>
  C4, amended. The backlinks of the viewed title \<open>T\<close> are exactly the notes other than
  \<open>T\<close> whose raw content (front matter included) holds some link token and holds the
  text \<^verbatim>\<open>[[T]]\<close> literally, untrimmed and case-sensitive. When \<open>T\<close> is not empty and has
  no closing bracket, the second condition alone decides: for \<open>X \<noteq> Y\<close>, if the content
  of \<open>X\<close> holds \<^verbatim>\<open>[[Y]]\<close> then \<open>X\<close> is a backlink of \<open>Y\<close>, and conversely; in
  particular when the body of \<open>X\<close> holds it, the body being part of the content.
\<close>

theorem backlinks_literal:
  "((X, n) \<in> set (backlinks st) \<longleftrightarrow>
      (X, n) \<in> set (d_notes st) \<and> X \<noteq> current st
      \<and> (\<exists>pre g post. content n = pre @ ''[['' @ g @ '']]'' @ post
             \<and> g \<noteq> [] \<and> CHR '']'' \<notin> set g)
      \<and> sublist (''[['' @ current st @ '']]'') (content n))
   \<and> (current st \<noteq> [] \<and> CHR '']'' \<notin> set (current st) \<longrightarrow>
        ((X, n) \<in> set (backlinks st) \<longleftrightarrow>
           (X, n) \<in> set (d_notes st) \<and> X \<noteq> current st
           \<and> sublist (''[['' @ current st @ '']]'') (content n)))
   \<and> (current st \<noteq> [] \<and> CHR '']'' \<notin> set (current st)
        \<and> (X, n) \<in> set (d_notes st) \<and> X \<noteq> current st
        \<and> sublist (''[['' @ current st @ '']]'') (body (parseFrontMatter (Some (content n))))
        \<longrightarrow> (X, n) \<in> set (backlinks st))"
proof -
  have g: "(X, n) \<in> set (backlinks st) \<longleftrightarrow>
      (X, n) \<in> set (d_notes st) \<and> X \<noteq> current st
      \<and> (\<exists>pre g post. content n = pre @ ''[['' @ g @ '']]'' @ post
             \<and> g \<noteq> [] \<and> CHR '']'' \<notin> set g)
      \<and> sublist (''[['' @ current st @ '']]'') (content n)"
    using backlinks_member [of "(X, n)" st] by simp
  have tok: "\<exists>pre g post. content n = pre @ ''[['' @ g @ '']]'' @ post
             \<and> g \<noteq> [] \<and> CHR '']'' \<notin> set g"
    if c: "current st \<noteq> []" "CHR '']'' \<notin> set (current st)"
      and s: "sublist (''[['' @ current st @ '']]'') (content n)"
  proof -
    from s obtain pre post where "content n = pre @ (''[['' @ current st @ '']]'') @ post"
      by (auto simp: sublist_def)
    then have "content n = pre @ ''[['' @ current st @ '']]'' @ post"
      by simp
    with c show ?thesis by blast
  qed
  have b: "sublist (''[['' @ current st @ '']]'') (content n)"
    if "sublist (''[['' @ current st @ '']]'') (body (parseFrontMatter (Some (content n))))"
    using that by (rule sublist_of_body)
  from g tok b show ?thesis by blast
qed

theorem backlinks_literal_witness:
  "current (example_store\<lparr>current := ''Home''\<rparr>) \<noteq> []
   \<and> CHR '']'' \<notin> set (current (example_store\<lparr>current := ''Home''\<rparr>))
   \<and> sublist ''[[Home]]'' ''Hello [[Home]]''
   \<and> (''Project'', \<lparr>content = ''Hello [[Home]]'', updated = 2\<rparr>)
        \<in> set (backlinks (example_store\<lparr>current := ''Home''\<rparr>))
   \<and> (''Home'', \<lparr>content = ''hello'', updated = 1\<rparr>)
        \<notin> set (backlinks (example_store\<lparr>current := ''Home''\<rparr>))
   \<and> body (parseFrontMatter (Some ''Hello [[Home]]'')) = ''Hello [[Home]]''"
proof -
  let ?st = "example_store\<lparr>current := ''Home''\<rparr>"
  have c: "current ?st = ''Home''" by simp
  have m: "(''Project'', \<lparr>content = ''Hello [[Home]]'', updated = 2\<rparr>) \<in> set (d_notes ?st)"
    by (simp add: example_store_def)
  have s: "sublist ''[[Home]]'' ''Hello [[Home]]''"
    by (simp add: sublist_Cons_right)
  have b: "body (parseFrontMatter (Some ''Hello [[Home]]'')) = ''Hello [[Home]]''"
    by (simp add: parseFrontMatter_def startsWith_def)
  from backlinks_literal
         [of "''Project''" "\<lparr>content = ''Hello [[Home]]'', updated = 2\<rparr>" ?st, THEN conjunct2]
       backlinks_literal
         [of "''Home''" "\<lparr>content = ''hello'', updated = 1\<rparr>" ?st,
          THEN conjunct2, THEN conjunct1]
       c m s b
  show ?thesis by simp
qed

text \<open>
  C5, as stated, fails. The claim restricts the keys only. The value " v" comes back as
  "v", since the parser trims every value (\<open>parsed_values_trimmed\<close>: no text at all
  parses to a value with white space around it); and the block of an empty mapping, whose
  two delimiter lines follow each other, is not recognised, so the whole text is the body.
\<close>

theorem round_trip_counterexample:
  "CHR ''\<newline>'' \<notin> set ''k'' \<and> CHR '':'' \<notin> set ''k''
   \<and> parseFrontMatter (Some (serialize [(''k'', '' v'')] @ ''text''))
       = \<lparr>props = [(''k'', ''v'')], body = ''text''\<rparr>
   \<and> parseFrontMatter (Some (serialize [(''k'', '' v'')] @ ''text''))
       \<noteq> \<lparr>props = [(''k'', '' v'')], body = ''text''\<rparr>
   \<and> parseFrontMatter (Some (serialize [] @ ''text''))
       = \<lparr>props = [], body = ''---\<newline>---\<newline>text''\<rparr>
   \<and> parseFrontMatter (Some (serialize [] @ ''text'')) \<noteq> \<lparr>props = [], body = ''text''\<rparr>"
  by (simp add: serialize_def parseFrontMatter_def startsWith_def indexOf_def slice_def trim_def
      is_space_def header_props_def match_property_line_def is_line_terminator_def
      assign_property_def obj_put_def is_array_index_def is_digit_def strip_newline_def)

text \<open>
  C5, amended. For every non-empty properties mapping (distinct keys) whose keys are
  non-empty, free of colons and line feeds, without white space at either end and not
  \<^verbatim>\<open>__proto__\<close>, whose keys after the first do not begin with \<^verbatim>\<open>---\<close>, and whose values
  are free of line terminators and without white space at either end, and for every body:
  parsing the serialized properties followed by the body returns that body and that
  mapping, and, when no key is an array index, the properties in their order.
\<close>

theorem front_matter_round_trip:
  assumes "ps \<noteq> []" and "distinct (map fst ps)"
      and "\<forall>p\<in>set ps. plain_key (fst p) \<and> plain_value (snd p)"
      and "\<forall>p\<in>set (tl ps). \<not> prefix ''---'' (fst p)"
  shows "body (parseFrontMatter (Some (serialize ps @ b))) = b
         \<and> map_of (props (parseFrontMatter (Some (serialize ps @ b)))) = map_of ps
         \<and> ((\<forall>p\<in>set ps. \<not> is_array_index (fst p)) \<longrightarrow>
              parseFrontMatter (Some (serialize ps @ b)) = \<lparr>props = ps, body = b\<rparr>)"
proof -
  note p = parse_serialized [OF assms(1,3,4), of b]
  have "map_of (foldl (\<lambda>props p. obj_put (fst p) (snd p) props) [] ps) = map_of ps"
    using map_of_fold_put [OF assms(2), of "[]"] by simp
  moreover have "foldl (\<lambda>props p. obj_put (fst p) (snd p) props) [] ps = ps"
    if "\<forall>p\<in>set ps. \<not> is_array_index (fst p)"
    using fold_put_appends [OF assms(2) _ that, of "[]"] by simp
  ultimately show ?thesis
    using p by simp
qed

theorem front_matter_round_trip_witness:
  "body (parseFrontMatter
           (Some (serialize [(''priority'', ''high''), (''2'', ''''), (''1'', ''a: b'')]
                  @ ''\<newline>Hi [[Bob]]''))) = ''\<newline>Hi [[Bob]]''
   \<and> map_of (props (parseFrontMatter
           (Some (serialize [(''priority'', ''high''), (''2'', ''''), (''1'', ''a: b'')]
                  @ ''\<newline>Hi [[Bob]]''))))
       = map_of [(''priority'', ''high''), (''2'', ''''), (''1'', ''a: b'')]
   \<and> parseFrontMatter (Some (serialize [(''priority'', ''high'')] @ ''Hi [[Bob]]''))
       = \<lparr>props = [(''priority'', ''high'')], body = ''Hi [[Bob]]''\<rparr>"
proof -
  let ?ps = "[(''priority'', ''high''), (''2'', ''''), (''1'', ''a: b'')]"
  have a: "?ps \<noteq> []" "distinct (map fst ?ps)" by simp_all
  have b: "\<forall>p\<in>set ?ps. plain_key (fst p) \<and> plain_value (snd p)"
    by (simp add: plain_key_def plain_value_def is_space_def is_line_terminator_def)
  have c: "\<forall>p\<in>set (tl ?ps). \<not> prefix ''---'' (fst p)" by simp
  let ?qs = "[(''priority'', ''high'')]"
  have a': "?qs \<noteq> []" "distinct (map fst ?qs)" by simp_all
  have b': "\<forall>p\<in>set ?qs. plain_key (fst p) \<and> plain_value (snd p)"
    by (simp add: plain_key_def plain_value_def is_space_def is_line_terminator_def)
  have c': "\<forall>p\<in>set (tl ?qs). \<not> prefix ''---'' (fst p)" by simp
  have d': "\<forall>p\<in>set ?qs. \<not> is_array_index (fst p)"
    by (simp add: is_array_index_def is_digit_def)
  from front_matter_round_trip [OF a b c, of "''\<newline>Hi [[Bob]]''"]
       front_matter_round_trip [OF a' b' c', of "''Hi [[Bob]]''"] d'
  show ?thesis by blast
qed

text \<open>
  C6. A rename is a no-op when the new title is empty or is the current title (or the
  dialog is cancelled). When the new title is that of another active note it shows the
  alert that the title exists and returns the store as it was: note records, trash and
  selection. The first version's rename does the same on its notes and selection.
\<close>

theorem rename_noop_or_conflict:
  "renameNote None st = Inr (None, st)
   \<and> (nt = '''' \<or> nt = current st \<longrightarrow> renameNote (Some nt) st = Inr (None, st))
   \<and> (nt \<noteq> '''' \<and> nt \<noteq> current st \<and> map_of (d_notes st) nt \<noteq> None \<longrightarrow>
        renameNote (Some nt) st = Inr (Some ''Title exists.'', st))
   \<and> (nt = '''' \<or> nt = old \<longrightarrow> renameNote_v1 now old nt v = Inr (None, v))
   \<and> (nt \<noteq> '''' \<and> nt \<noteq> old \<and> map_of (notes_v1 v) nt \<noteq> None \<longrightarrow>
        renameNote_v1 now old nt v
          = Inr (Some ''A note with this title already exists.'', v))"
  by (auto simp: renameNote_def renameNote_v1_def truthy_at_def)

theorem rename_noop_or_conflict_witness:
  "renameNote (Some '''') example_store = Inr (None, example_store)
   \<and> renameNote (Some ''Project'') example_store = Inr (None, example_store)
   \<and> ''Home'' \<noteq> '''' \<and> ''Home'' \<noteq> current example_store
   \<and> map_of (d_notes example_store) ''Home'' \<noteq> None
   \<and> renameNote (Some ''Home'') example_store = Inr (Some ''Title exists.'', example_store)
   \<and> renameNote_v1 9 ''Project'' ''''
         \<lparr>notes_v1 = d_notes example_store, current_v1 = ''Project''\<rparr>
       = Inr (None, \<lparr>notes_v1 = d_notes example_store, current_v1 = ''Project''\<rparr>)
   \<and> renameNote_v1 9 ''Project'' ''Home''
         \<lparr>notes_v1 = d_notes example_store, current_v1 = ''Project''\<rparr>
       = Inr (Some ''A note with this title already exists.'',
              \<lparr>notes_v1 = d_notes example_store, current_v1 = ''Project''\<rparr>)"
proof -
  let ?v = "\<lparr>notes_v1 = d_notes example_store, current_v1 = ''Project''\<rparr>"
  have c: "current example_store = ''Project''"
    by (simp add: example_store_def)
  have h: "map_of (d_notes example_store) ''Home'' \<noteq> None"
    by (simp add: example_store_def)
  from rename_noop_or_conflict [of example_store "''''" "''Project''" 9 ?v]
       rename_noop_or_conflict [of example_store "''Project''" "''Project''" 9 ?v]
       rename_noop_or_conflict [of example_store "''Home''" "''Project''" 9 ?v] c h
  show ?thesis by simp
qed

text \<open>
  C7. The claim: in a line that is no heading the characters \<^verbatim>\<open>&\<close>, \<^verbatim>\<open><\<close>, \<^verbatim>\<open>>\<close> are
  escaped first, then bold, italic, underline and link tokens are replaced in that order,
  and a link token becomes an element whose activation opens the enclosed, trimmed title.
  The code at the line \<^verbatim>\<open>[[ Bob ]]\<close>: the anchor carries the enclosed text as it stands,
  spaces included, and the click handler opens, and here creates, the note " Bob ". The
  first version's link scan opens "Bob" for the same text.
\<close>

theorem render_link_untrimmed:
  \<open>renderMarkdown ''[[ Bob ]]''
     = ''<p><a href="#" class="wikilink" data-title=" Bob ">[[ Bob ]]</a></p>''
   \<and> handler 9 '' Bob '' single_note_store
     = \<lparr>d_notes = [(''Draft'', \<lparr>content = ''text'', updated = 1\<rparr>),
                   ('' Bob '', \<lparr>content = '''', updated = 9\<rparr>)],
        d_trash = [],
        current = '' Bob ''\<rparr>
   \<and> wikilink_titles 0 ''[[ Bob ]]'' = [''Bob'']\<close>
  by (simp add: renderMarkdown_def render_line_def heading_text_def esc_def match_span_def
      wikilink_anchor_def is_space_def Let_def handler_def single_note_store_def
      truthy_at_def object_prototype_names_def obj_put_def is_array_index_def is_digit_def
      trim_def)

text \<open>
  C8. The claim: a confirmed soft delete of an active title puts its snapshot in front of
  the trash, removes it from the active notes and, if it was the viewed note, moves the
  selection to some remaining active note, or to "Home" if none remains. The code at a
  store that holds a note with the empty title (written when the title field is cleared
  and the editor is typed in) and the viewed note "Plan": after the delete the note with
  the empty title remains, and the selection is "Home", which is no active note. The
  snapshot and the removal are as the claim says.
\<close>

theorem softDelete_skips_empty_title:
  "map_of (d_notes empty_title_store) ''Plan'' = Some \<lparr>content = ''agenda'', updated = 2\<rparr>
   \<and> current empty_title_store = ''Plan''
   \<and> softDeleteNote True 9 ''Plan'' empty_title_store
     = \<lparr>d_notes = [('''', \<lparr>content = ''scratch'', updated = 1\<rparr>)],
        d_trash = [\<lparr>title = ''Plan'', tcontent = ''agenda'', deletedAt = 9\<rparr>],
        current = ''Home''\<rparr>"
  by (simp add: empty_title_store_def softDeleteNote_def obj_delete_def keys_def Let_def)

text \<open>
  C9. A confirmed soft delete of a title that is not an active note still succeeds: the
  trash gains, in front, an entry with that title, the empty content and the current time,
  and the active notes are unchanged.
\<close>

theorem softDelete_inactive:
  assumes "map_of (d_notes st) T = None"
  shows "d_trash (softDeleteNote True now T st)
           = \<lparr>title = T, tcontent = '''', deletedAt = now\<rparr> # d_trash st
         \<and> d_notes (softDeleteNote True now T st) = d_notes st"
  using assms by (simp add: softDeleteNote_def Let_def obj_delete_absent)

theorem softDelete_inactive_witness:
  "map_of (d_notes example_store) ''Ghost'' = None
   \<and> d_trash (softDeleteNote True 9 ''Ghost'' example_store)
       = \<lparr>title = ''Ghost'', tcontent = '''', deletedAt = 9\<rparr> # d_trash example_store
   \<and> d_notes (softDeleteNote True 9 ''Ghost'' example_store) = d_notes example_store"
proof -
  have h: "map_of (d_notes example_store) ''Ghost'' = None"
    by (simp add: example_store_def)
  from softDelete_inactive [OF h, of 9] h show ?thesis by simp
qed

text \<open>
  C10. Frame of the two purge operations. A confirmed \<open>deleteForever i\<close> leaves the trash
  with exactly its \<open>i\<close>-th entry removed, the others in their order, and a confirmed
  \<open>emptyTrash\<close> leaves it empty; both leave every note record and the selection as they were.
\<close>

theorem purge_frame:
  "deleteForever True i st = st\<lparr>d_trash := take i (d_trash st) @ drop (Suc i) (d_trash st)\<rparr>
   \<and> d_notes (deleteForever True i st) = d_notes st
   \<and> current (deleteForever True i st) = current st
   \<and> emptyTrash True st = st\<lparr>d_trash := []\<rparr>
   \<and> d_notes (emptyTrash True st) = d_notes st
   \<and> current (emptyTrash True st) = current st"
  by (simp add: deleteForever_def emptyTrash_def filter_index_take_drop)

end
